theory Spec2Isabelle
  imports Complex_Main
begin

section \<open>Values: errors, tensors, cells\<close>

text \<open>
  The development embeds \<^verbatim>\<open>main\<close> of \<^verbatim>\<open>src/lake/schapiro_experiments.py\<close>: the
  accumulator initialisation (lines 83-90), the seed / epoch / trial / study-step /
  component loops (lines 92-443) and the early / late aggregation (lines 466-473).
  Pretraining, image loading, file output and plotting are calls into other modules and
  are left out.

  Python exceptions are values of \<open>py_error\<close>. Feature tensors hold reals (float rounding
  is not modelled). A correlation cell is a \<open>real option\<close>: \<open>None\<close> stands for the float
  NaN that \<^verbatim>\<open>scipy.stats.pearsonr\<close> returns on a constant input and that
  \<^verbatim>\<open>torch.mean\<close> returns on an empty slice; arithmetic on cells propagates it.
\<close>

datatype py_error =
  KeyError | UnboundLocalError | ValueError | ZeroDivisionError | IndexError
  | RuntimeError | AssertionError

type_synonym vec = "real list"
type_synonym tensor2 = "vec list"
type_synonym cell = "real option"
type_synonym matrix = "cell list list"
type_synonym pair_seq = "(nat \<times> nat) list"

definition cadd :: "cell \<Rightarrow> cell \<Rightarrow> cell" where
  "cadd a b = (case a of None \<Rightarrow> None | Some x \<Rightarrow> (case b of None \<Rightarrow> None | Some y \<Rightarrow> Some (x + y)))"

definition csub :: "cell \<Rightarrow> cell \<Rightarrow> cell" where
  "csub a b = (case a of None \<Rightarrow> None | Some x \<Rightarrow> (case b of None \<Rightarrow> None | Some y \<Rightarrow> Some (x - y)))"

text \<open>Division of a tensor scalar by a Python int; \<open>0 / 0\<close> on floats is NaN.\<close>

definition cdiv :: "cell \<Rightarrow> nat \<Rightarrow> cell" where
  "cdiv a n = (case a of None \<Rightarrow> None | Some x \<Rightarrow> if n = 0 then None else Some (x / real n))"

text \<open>A list comprehension whose element expression may raise: the first error wins.\<close>

fun list_comp :: "('a \<Rightarrow> py_error + 'b) \<Rightarrow> 'a list \<Rightarrow> py_error + 'b list" where
  "list_comp f [] = Inr []"
| "list_comp f (x # xs) =
     (case f x of
        Inl e \<Rightarrow> Inl e
      | Inr y \<Rightarrow> (case list_comp f xs of Inl e \<Rightarrow> Inl e | Inr ys \<Rightarrow> Inr (y # ys)))"

text \<open>Python's \<^verbatim>\<open>sum\<close>: a left fold from the int 0.\<close>

definition py_sum :: "cell list \<Rightarrow> cell" where
  "py_sum cs = foldl cadd (Some 0) cs"

section \<open>Slicing\<close>

text \<open>
  \<^verbatim>\<open>xs[start:stop:step]\<close> for non-negative bounds and a positive step: the indices
  \<open>start, start + step, ...\<close> below \<open>min stop (len xs)\<close>.
\<close>

definition slice_indices :: "nat \<Rightarrow> nat \<Rightarrow> nat \<Rightarrow> nat \<Rightarrow> nat list" where
  "slice_indices start stop step n =
     filter (\<lambda>i. (i - start) mod step = 0) [start ..< min stop n]"

definition py_slice :: "nat \<Rightarrow> nat \<Rightarrow> nat \<Rightarrow> 'a list \<Rightarrow> 'a list" where
  "py_slice start stop step xs = map (\<lambda>i. xs ! i) (slice_indices start stop step (length xs))"

text \<open>Lines 466-467 and 471-472: the early and the late slice of an accumulator.\<close>

definition early_slice :: "'a list \<Rightarrow> 'a list" where
  "early_slice acc = py_slice 1 (length acc) 2 acc"

definition late_slice :: "'a list \<Rightarrow> 'a list" where
  "late_slice acc = py_slice 2 (length acc + 1) 2 acc"

section \<open>Pearson correlation (lines 352-355)\<close>

definition mean :: "vec \<Rightarrow> real" where
  "mean x = sum_list x / real (length x)"

definition dot :: "vec \<Rightarrow> vec \<Rightarrow> real" where
  "dot x y = sum_list (map2 (\<lambda>a b. a * b) x y)"

definition norm2 :: "vec \<Rightarrow> real" where
  "norm2 x = sqrt (sum_list (map (\<lambda>a. a * a) x))"

definition is_constant :: "vec \<Rightarrow> bool" where
  "is_constant x = list_all (\<lambda>v. v = hd x) x"

text \<open>
  \<^verbatim>\<open>scipy.stats.pearsonr(x, y)[0]\<close>, a library function, written out from its
  implementation: unequal lengths and lengths below 2 raise \<^verbatim>\<open>ValueError\<close>, a constant
  input gives NaN, two points give the product of the signs of the two slopes, and in
  general \<open>r = dot (xm / norm xm) (ym / norm ym)\<close> clipped to \<open>[-1, 1]\<close>.
\<close>

definition pearsonr :: "vec \<Rightarrow> vec \<Rightarrow> py_error + cell" where
  "pearsonr x y =
     (let n = length x in
      if n \<noteq> length y then Inl ValueError
      else if n < 2 then Inl ValueError
      else if is_constant x \<or> is_constant y then Inr None
      else if n = 2 then Inr (Some (sgn (x ! 1 - x ! 0) * sgn (y ! 1 - y ! 0)))
      else
        let xmean = mean x; ymean = mean y;
            xm = map (\<lambda>v. v - xmean) x; ym = map (\<lambda>v. v - ymean) y;
            normxm = norm2 xm; normym = norm2 ym;
            r = dot (map (\<lambda>v. v / normxm) xm) (map (\<lambda>v. v / normym) ym)
        in Inr (Some (max (min r 1) (- 1))))"

text \<open>
  Line 353: \<^verbatim>\<open>[[pearsonr(a, b)[0] for a in flat] for b in flat]\<close>; the outer loop
  runs over \<open>b\<close>, so row \<open>i\<close>, column \<open>j\<close> holds \<open>pearsonr (flat ! j) (flat ! i)\<close>.
\<close>

definition pearson_rows :: "tensor2 \<Rightarrow> py_error + matrix" where
  "pearson_rows flat = list_comp (\<lambda>b. list_comp (\<lambda>a. pearsonr a b) flat) flat"

text \<open>Lines 352-354: restrict to the first \<open>characters\<close> rows, then correlate.\<close>

definition correlate :: "nat \<Rightarrow> tensor2 \<Rightarrow> py_error + matrix" where
  "correlate characters flat = pearson_rows (take characters flat)"


section \<open>Classification of recalled patterns (lines 344-350)\<close>

text \<open>
  \<^verbatim>\<open>torch.nn.CosineSimilarity(dim=0, eps=1e-6)\<close> on two vectors, a library function.
  Each norm is clamped from below by \<open>eps\<close> on its own:
  \<open>x \<cdot> y / (max \<parallel>x\<parallel> eps * max \<parallel>y\<parallel> eps)\<close>. A vector of length one is broadcast,
  any other mismatch of lengths raises \<^verbatim>\<open>RuntimeError\<close>.
\<close>

definition cos_sim :: "vec \<Rightarrow> vec \<Rightarrow> py_error + real" where
  "cos_sim a b =
     (let a' = (if length a = 1 \<and> length b \<noteq> 1 then replicate (length b) (hd a) else a);
          b' = (if length b = 1 \<and> length a \<noteq> 1 then replicate (length a) (hd b) else b)
      in if length a' \<noteq> length b' then Inl RuntimeError
         else Inr (dot a' b' / (max (norm2 a') (1 / 1000000) * max (norm2 b') (1 / 1000000))))"

text \<open>Python's \<^verbatim>\<open>max(t)\<close> keeps the first of several maximal elements.\<close>

definition py_max :: "real list \<Rightarrow> py_error + real" where
  "py_max t = (case t of [] \<Rightarrow> Inl ValueError | x # xs \<Rightarrow> Inr (foldl (\<lambda>m v. if m < v then v else m) x xs))"

text \<open>\<^verbatim>\<open>t.index(v)\<close>: the first position holding \<open>v\<close>.\<close>

fun py_index :: "real list \<Rightarrow> real \<Rightarrow> py_error + nat" where
  "py_index [] v = Inl ValueError"
| "py_index (x # xs) v =
     (if x = v then Inr 0
      else (case py_index xs v of Inl e \<Rightarrow> Inl e | Inr i \<Rightarrow> Inr (Suc i)))"

definition index_of_max :: "real list \<Rightarrow> py_error + nat" where
  "index_of_max t = (case py_max t of Inl e \<Rightarrow> Inl e | Inr m \<Rightarrow> py_index t m)"

definition getitem :: "'a list \<Rightarrow> nat \<Rightarrow> py_error + 'a" where
  "getitem xs i = (if i < length xs then Inr (xs ! i) else Inl IndexError)"

definition classify :: "tensor2 \<Rightarrow> (nat \<times> nat) list \<Rightarrow> tensor2 \<Rightarrow> py_error + (nat \<times> nat) list" where
  "classify main_pairs_flat labels_study flat =
     (case list_comp (\<lambda>a. list_comp (\<lambda>b. cos_sim a b) main_pairs_flat) flat of
        Inl e \<Rightarrow> Inl e
      | Inr similarity \<Rightarrow>
          (case list_comp index_of_max similarity of
             Inl e \<Rightarrow> Inl e
           | Inr similarity_idx \<Rightarrow> list_comp (getitem labels_study) similarity_idx))"

section \<open>Contrast vectors (lines 358-374)\<close>

text \<open>
  The sequence generator classes live in another module; an instance is the record of
  the attributes that \<^verbatim>\<open>main\<close> reads.
\<close>

record generator =
  sequence :: pair_seq
  core_sequence :: pair_seq
  test_sequence :: pair_seq
  base_sequence :: pair_seq
  graph_sequences :: "pair_seq list"
  core_label_sequence :: "(nat \<times> nat) list"

definition cell_at :: "matrix \<Rightarrow> nat \<times> nat \<Rightarrow> py_error + cell" where
  "cell_at pearson_r ij =
     (case ij of (i, j) \<Rightarrow>
        if i < length pearson_r \<and> j < length (pearson_r ! i) then Inr (pearson_r ! i ! j)
        else Inl IndexError)"

text \<open>
  \<^verbatim>\<open>sum([pearson_r[i, j] for (i, j) in seq]) / len(seq)\<close>: on an empty sequence
  the sum is the int 0 and the division raises.
\<close>

definition pattern_mean :: "matrix \<Rightarrow> pair_seq \<Rightarrow> py_error + cell" where
  "pattern_mean pearson_r seq =
     (case list_comp (cell_at pearson_r) seq of
        Inl e \<Rightarrow> Inl e
      | Inr cells \<Rightarrow>
          if length seq = 0 then Inl ZeroDivisionError
          else Inr (cdiv (py_sum cells) (length seq)))"

definition graph_mean :: "matrix \<Rightarrow> pair_seq list \<Rightarrow> nat \<Rightarrow> py_error + cell" where
  "graph_mean pearson_r gs k =
     (if k < length gs then pattern_mean pearson_r (gs ! k) else Inl IndexError)"

text \<open>
  The three \<^verbatim>\<open>if experiment == ...\<close> blocks test pairwise different strings, so at
  most one runs. When none does, \<^verbatim>\<open>tmp_pearson_test\<close> is read unbound; \<^verbatim>\<open>main\<close>
  normalises the experiment name first (line 62), which rules that out.
\<close>

definition contrast :: "string \<Rightarrow> generator \<Rightarrow> matrix \<Rightarrow> py_error + cell list" where
  "contrast experiment g pearson_r =
     (if experiment = ''pairs_structure'' then
        (case pattern_mean pearson_r (test_sequence g) of
           Inl e \<Rightarrow> Inl e
         | Inr pearson_all_pattern \<Rightarrow>
             (case pattern_mean pearson_r (core_sequence g) of
                Inl e \<Rightarrow> Inl e
              | Inr pearson_core_pattern \<Rightarrow> Inr [pearson_core_pattern, pearson_all_pattern]))
      else if experiment = ''associative_inference'' then
        (case pattern_mean pearson_r (test_sequence g) of
           Inl e \<Rightarrow> Inl e
         | Inr pearson_transitive_pattern \<Rightarrow>
             (case pattern_mean pearson_r (core_sequence g) of
                Inl e \<Rightarrow> Inl e
              | Inr pearson_direct_pattern \<Rightarrow>
                  (case pattern_mean pearson_r (base_sequence g) of
                     Inl e \<Rightarrow> Inl e
                   | Inr pearson_base_pattern \<Rightarrow>
                       Inr [csub pearson_transitive_pattern pearson_base_pattern,
                            csub pearson_direct_pattern pearson_base_pattern])))
      else if experiment = ''community_structure'' then
        (case graph_mean pearson_r (graph_sequences g) 0 of
           Inl e \<Rightarrow> Inl e
         | Inr pearson_within_internal \<Rightarrow>
             (case graph_mean pearson_r (graph_sequences g) 1 of
                Inl e \<Rightarrow> Inl e
              | Inr pearson_within_boundary \<Rightarrow>
                  (case graph_mean pearson_r (graph_sequences g) 2 of
                     Inl e \<Rightarrow> Inl e
                   | Inr pearson_across_boundary \<Rightarrow>
                       (case graph_mean pearson_r (graph_sequences g) 3 of
                          Inl e \<Rightarrow> Inl e
                        | Inr pearson_across_other \<Rightarrow>
                            Inr [pearson_within_internal, pearson_within_boundary,
                                 pearson_across_boundary, pearson_across_other]))))
      else Inl UnboundLocalError)"

section \<open>Configuration, collaborators and state\<close>

text \<open>
  The fields of the JSON configuration that \<^verbatim>\<open>main\<close> reads in the modelled part.
  \<open>characters\<close> is a natural number: \<^verbatim>\<open>torch.zeros((characters, characters))\<close>
  (line 88) rejects a negative one before any loop starts.
\<close>

record config =
  seeds :: int
  experiment_name :: "string option"
  test_components :: "string list"
  characters :: nat
  train_epochs :: int
  study_batch_size :: int
  test_single_characters :: bool
  early_response_step :: int
  late_response_steps :: int
  metrics :: "(string \<times> string list) list option"

text \<open>Lines 62-65: an unknown experiment name falls back to the pair experiment.\<close>

definition experiment_of :: "config \<Rightarrow> string" where
  "experiment_of cfg =
     (case experiment_name cfg of
        None \<Rightarrow> ''pairs_structure''
      | Some name \<Rightarrow>
          if name \<in> set [''pairs_structure'', ''community_structure'', ''associative_inference'']
          then name else ''pairs_structure'')"

text \<open>
  What the collaborators hand to \<^verbatim>\<open>main\<close>: the generator instance that the \<open>k\<close>-th
  constructor call of the run returns, the flattened reference pattern of a label pair
  (seed index, epoch, label; lines 235-237), and the recall output of the model at a
  probe (seed index, epoch, trial index, study step), as a map from the key path to the
  flattened tensor. Calls into the model, the dataset and the metrics module are taken
  to return normally.
\<close>

record env =
  new_generator :: "nat \<Rightarrow> generator"
  pair_image :: "nat \<Rightarrow> nat \<Rightarrow> nat \<times> nat \<Rightarrow> vec"
  recall_outputs :: "nat \<Rightarrow> nat \<Rightarrow> nat \<Rightarrow> nat \<Rightarrow> string list \<rightharpoonup> tensor2"

datatype mode = Study | Recall

text \<open>
  The calls of a run, in order: a generator constructor (with the ordinal of the instance
  it returns), an epoch reading the sequence of a generator instance (seed index, epoch,
  instance), the reset of the model that opens a trial, a call of the model (mode, study
  step, whether inside \<^verbatim>\<open>torch.no_grad()\<close>), the end of a component's accumulation
  (component, study step) and the check of the metrics configuration.
\<close>

datatype event =
  Construct_generator nat
  | Read_generator nat nat nat
  | Reset_model
  | Model_call mode nat bool
  | Accumulate string nat
  | Check_metrics

text \<open>
  The local variables of \<^verbatim>\<open>main\<close> that outlive a loop iteration.
  \<open>recall_outputs_flat\<close> and \<open>recall_data\<close> are unbound until first assigned.
\<close>

record state =
  pearson_r_tensor :: "string \<rightharpoonup> matrix list"
  pearson_r_test :: "string \<rightharpoonup> cell list list"
  recall_outputs_flat :: "tensor2 option"
  recall_data_bound :: bool
  predictions :: "(nat \<times> nat) list list"
  next_generator :: nat
  trace :: "event list"

type_synonym 'a result = "(py_error \<times> state) + 'a"

definition log_event :: "event \<Rightarrow> state \<Rightarrow> state" where
  "log_event ev s = s\<lparr>trace := trace s @ [ev]\<rparr>"

text \<open>A \<^verbatim>\<open>for\<close> loop whose body may raise: the exception ends the loop.\<close>

fun for_each :: "('a \<Rightarrow> state \<Rightarrow> state result) \<Rightarrow> 'a list \<Rightarrow> state \<Rightarrow> state result" where
  "for_each body [] s = Inr s"
| "for_each body (x # xs) s =
     (case body x s of Inl e \<Rightarrow> Inl e | Inr s' \<Rightarrow> for_each body xs s')"

text \<open>Lines 83-90.\<close>

definition test_width :: "config \<Rightarrow> nat" where
  "test_width cfg = (if experiment_of cfg = ''community_structure'' then 4 else 2)"

definition init :: "config \<Rightarrow> state" where
  "init cfg =
     \<lparr>pearson_r_tensor =
        (\<lambda>k. if k \<in> set (test_components cfg)
             then Some [replicate (characters cfg) (replicate (characters cfg) (Some 0))]
             else None),
      pearson_r_test =
        (\<lambda>k. if k \<in> set (test_components cfg)
             then Some [replicate (test_width cfg) (Some 0)]
             else None),
      recall_outputs_flat = None,
      recall_data_bound = False,
      predictions = [],
      next_generator = 0,
      trace = []\<rparr>"

section \<open>One component of one probe (lines 323-374)\<close>

definition fetch :: "(string list \<rightharpoonup> tensor2) \<Rightarrow> string list \<Rightarrow> py_error + tensor2 option" where
  "fetch ro path = (case ro path of None \<Rightarrow> Inl KeyError | Some t \<Rightarrow> Inr (Some t))"

text \<open>
  Lines 327-347: the chain of \<^verbatim>\<open>if component == ...\<close> tests, which has no
  \<^verbatim>\<open>else\<close>. The names are pairwise different, so at most one test succeeds and
  rebinds \<^verbatim>\<open>recall_outputs_flat\<close>; for any other name the variable keeps what it
  held before (the third argument).
\<close>

definition select_features ::
  "(string list \<rightharpoonup> tensor2) \<Rightarrow> string \<Rightarrow> tensor2 option \<Rightarrow> py_error + tensor2 option" where
  "select_features ro component bound =
     (if component = ''dg'' then fetch ro [''stm'', ''memory'', ''dg'']
      else if component = ''pr'' then fetch ro [''stm'', ''memory'', ''pr'', ''pr_out'']
      else if component = ''ec_ca3'' then fetch ro [''stm'', ''memory'', ''ec_ca3'', ''ca3_cue'']
      else if component = ''ca3_ca1'' then fetch ro [''stm'', ''memory'', ''ca3_ca1'', ''decoding'']
      else if component = ''ca1'' then fetch ro [''stm'', ''memory'', ''ca1'', ''decoding'']
      else if component = ''recon_pair'' then fetch ro [''stm'', ''memory'', ''decoding'']
      else Inr bound)"

text \<open>Lines 348-350, inside the \<^verbatim>\<open>recon_pair\<close> branch.\<close>

definition record_predictions :: "generator \<Rightarrow> tensor2 \<Rightarrow> string \<Rightarrow> state \<Rightarrow> state result" where
  "record_predictions g main_pairs_flat component s =
     (if component = ''recon_pair'' then
        (case recall_outputs_flat s of
           None \<Rightarrow> Inl (UnboundLocalError, s)
         | Some flat \<Rightarrow>
             (case classify main_pairs_flat (core_label_sequence g) flat of
                Inl e \<Rightarrow> Inl (e, s)
              | Inr labels \<Rightarrow> Inr (s\<lparr>predictions := predictions s @ [labels]\<rparr>)))
      else Inr s)"

text \<open>
  \<^verbatim>\<open>torch.cat((acc, x[None, :, :]), 0)\<close>: the dictionary lookup comes first, then the
  indexing of \<open>x\<close> (an empty list gives a one-dimensional tensor, which has too few axes),
  then the comparison of shapes. Every entry of the accumulator is
  \<open>characters \<times> characters\<close>, as its first one is.
\<close>

definition cat_matrix :: "nat \<Rightarrow> matrix list option \<Rightarrow> matrix \<Rightarrow> py_error + matrix list" where
  "cat_matrix n acc pearson_r =
     (case acc of
        None \<Rightarrow> Inl KeyError
      | Some ms \<Rightarrow>
          if pearson_r = [] then Inl IndexError
          else if length pearson_r = n \<and> list_all (\<lambda>r. length r = n) pearson_r
          then Inr (ms @ [pearson_r])
          else Inl RuntimeError)"

definition cat_vector :: "nat \<Rightarrow> cell list list option \<Rightarrow> cell list \<Rightarrow> py_error + cell list list" where
  "cat_vector n acc tmp_pearson_test =
     (case acc of
        None \<Rightarrow> Inl KeyError
      | Some vs \<Rightarrow>
          if length tmp_pearson_test = n then Inr (vs @ [tmp_pearson_test])
          else Inl RuntimeError)"

text \<open>Lines 352-374.\<close>

definition accumulate :: "config \<Rightarrow> generator \<Rightarrow> nat \<Rightarrow> string \<Rightarrow> state \<Rightarrow> state result" where
  "accumulate cfg g step component s =
     (case recall_outputs_flat s of
        None \<Rightarrow> Inl (UnboundLocalError, s)
      | Some flat \<Rightarrow>
          let s1 = s\<lparr>recall_outputs_flat := Some (take (characters cfg) flat)\<rparr> in
          (case correlate (characters cfg) flat of
             Inl e \<Rightarrow> Inl (e, s1)
           | Inr pearson_r \<Rightarrow>
               (case cat_matrix (characters cfg) (pearson_r_tensor s1 component) pearson_r of
                  Inl e \<Rightarrow> Inl (e, s1)
                | Inr ms \<Rightarrow>
                    let s2 = s1\<lparr>pearson_r_tensor := (pearson_r_tensor s1)(component \<mapsto> ms)\<rparr> in
                    (case contrast (experiment_of cfg) g pearson_r of
                       Inl e \<Rightarrow> Inl (e, s2)
                     | Inr tmp_pearson_test \<Rightarrow>
                         (case cat_vector (test_width cfg) (pearson_r_test s2 component)
                                 tmp_pearson_test of
                            Inl e \<Rightarrow> Inl (e, s2)
                          | Inr vs \<Rightarrow>
                              Inr (log_event (Accumulate component step)
                                    (s2\<lparr>pearson_r_test :=
                                          (pearson_r_test s2)(component \<mapsto> vs)\<rparr>)))))))"

definition process_component ::
  "config \<Rightarrow> generator \<Rightarrow> (string list \<rightharpoonup> tensor2) \<Rightarrow> tensor2 \<Rightarrow> nat \<Rightarrow> string \<Rightarrow> state
     \<Rightarrow> state result" where
  "process_component cfg g ro main_pairs_flat step component s =
     (case select_features ro component (recall_outputs_flat s) of
        Inl e \<Rightarrow> Inl (e, s)
      | Inr bound \<Rightarrow>
          (case record_predictions g main_pairs_flat component
                  (s\<lparr>recall_outputs_flat := bound\<rparr>) of
             Inl e \<Rightarrow> Inl e
           | Inr s1 \<Rightarrow> accumulate cfg g step component s1))"

section \<open>Study steps, trials, epochs, seeds (lines 92-443)\<close>

text \<open>Lines 318-374: the recall probe, inside \<^verbatim>\<open>torch.no_grad()\<close>.\<close>

definition probe ::
  "config \<Rightarrow> env \<Rightarrow> generator \<Rightarrow> tensor2 \<Rightarrow> nat \<Rightarrow> nat \<Rightarrow> nat \<Rightarrow> nat \<Rightarrow> state \<Rightarrow> state result" where
  "probe cfg ev g main_pairs_flat k ep idx step s =
     for_each (process_component cfg g (recall_outputs ev k ep idx step) main_pairs_flat step)
       (test_components cfg) (log_event (Model_call Recall step True) s)"

text \<open>Lines 301-374: one iteration of the study loop.\<close>

definition study_step ::
  "config \<Rightarrow> env \<Rightarrow> generator \<Rightarrow> tensor2 \<Rightarrow> nat \<Rightarrow> nat \<Rightarrow> nat \<Rightarrow> nat \<Rightarrow> state \<Rightarrow> state result" where
  "study_step cfg ev g main_pairs_flat k ep idx step s =
     (let s1 = log_event (Model_call Study step False) s in
      if int step = early_response_step cfg - 1 \<or> int step = late_response_steps cfg - 1
      then probe cfg ev g main_pairs_flat k ep idx step s1
      else Inr s1)"

definition study ::
  "config \<Rightarrow> env \<Rightarrow> generator \<Rightarrow> tensor2 \<Rightarrow> nat \<Rightarrow> nat \<Rightarrow> nat \<Rightarrow> state \<Rightarrow> state result" where
  "study cfg ev g main_pairs_flat k ep idx s =
     for_each (study_step cfg ev g main_pairs_flat k ep idx)
       [0 ..< nat (late_response_steps cfg)] s"

text \<open>
  Lines 384-402: the check of the metrics configuration, which runs in the recall
  section of each trial, after the study loop. After the assertion the loop over the
  entries reads six keys.
\<close>

definition metrics_keys :: "string list" where
  "metrics_keys =
     [''primary_feature_names'', ''primary_label_names'', ''secondary_feature_names'',
      ''secondary_label_names'', ''comparison_types'', ''prefixes'']"

definition check_metrics :: "config \<Rightarrow> state \<Rightarrow> state result" where
  "check_metrics cfg s =
     (case metrics cfg of
        None \<Rightarrow> Inr s
      | Some metrics_config \<Rightarrow>
          if metrics_config = [] then Inr s
          else
            let s1 = log_event Check_metrics s;
                metrics_len = map (\<lambda>kv. length (snd kv)) metrics_config in
            if \<not> list_all (\<lambda>x. x = hd metrics_len) metrics_len then Inl (AssertionError, s1)
            else if 0 < hd metrics_len
                    \<and> \<not> list_all (\<lambda>key. key \<in> set (map fst metrics_config)) metrics_keys
            then Inl (KeyError, s1)
            else Inr s1)"

text \<open>
  Lines 244-443: one trial. With \<^verbatim>\<open>test_single_characters\<close> off, line 286 reads
  \<^verbatim>\<open>recall_data\<close> before the trial has assigned it.
\<close>

definition trial ::
  "config \<Rightarrow> env \<Rightarrow> generator \<Rightarrow> tensor2 \<Rightarrow> nat \<Rightarrow> nat \<Rightarrow> nat \<Rightarrow> state \<Rightarrow> state result" where
  "trial cfg ev g main_pairs_flat k ep idx s =
     (if \<not> test_single_characters cfg \<and> \<not> recall_data_bound s then Inl (UnboundLocalError, s)
      else
        let s1 = log_event Reset_model (s\<lparr>recall_data_bound := True\<rparr>) in
        (case study cfg ev g main_pairs_flat k ep idx s1 of
           Inl e \<Rightarrow> Inl e
         | Inr s2 \<Rightarrow> check_metrics cfg s2))"

text \<open>
  \<^verbatim>\<open>DataLoader(xs, batch_size=n, shuffle=False)\<close>: consecutive batches of \<open>n\<close>
  elements, the last one possibly shorter.
\<close>

function batches :: "nat \<Rightarrow> 'a list \<Rightarrow> 'a list list" where
  "batches n xs = (if n = 0 \<or> xs = [] then [] else take n xs # batches n (drop n xs))"
  by pat_completeness auto
termination
  by (relation "measure (\<lambda>(n, xs). length xs)") auto

text \<open>
  Lines 213-443: one epoch. The study and recall generators were constructed before the
  epoch loop; the epoch reads their sequences (instances \<open>ids\<close>, \<open>idr\<close>), and the
  trials are the pairs of batches of \<^verbatim>\<open>zip(study_loader, recall_loader)\<close>.
\<close>

definition epoch ::
  "config \<Rightarrow> env \<Rightarrow> nat \<Rightarrow> nat \<times> generator \<Rightarrow> nat \<times> generator \<Rightarrow> nat \<Rightarrow> state \<Rightarrow> state result" where
  "epoch cfg ev k study_gen recall_gen ep s =
     (let s1 = log_event (Read_generator k ep (fst recall_gen))
                 (log_event (Read_generator k ep (fst study_gen)) s) in
      if study_batch_size cfg \<le> 0 then Inl (ValueError, s1)
      else
        let study_loader = batches (nat (study_batch_size cfg)) (sequence (snd study_gen));
            recall_loader = batches (nat (study_batch_size cfg)) (sequence (snd recall_gen));
            labels_study = core_label_sequence (snd study_gen);
            main_pairs_flat = map (pair_image ev k ep) labels_study
        in for_each (\<lambda>idx. trial cfg ev (snd study_gen) main_pairs_flat k ep idx)
             [0 ..< length (zip study_loader recall_loader)] s1)"

text \<open>
  Lines 92-464: one seed. The two generators are constructed once, before the epoch
  loop (lines 199-207); after it, the file names of line 449 read \<^verbatim>\<open>stm_epoch\<close>,
  unbound when no epoch ran.
\<close>

definition construct :: "env \<Rightarrow> state \<Rightarrow> (nat \<times> generator) \<times> state" where
  "construct ev s =
     (let i = next_generator s
      in ((i, new_generator ev i), log_event (Construct_generator i) (s\<lparr>next_generator := Suc i\<rparr>)))"

definition seed_run :: "config \<Rightarrow> env \<Rightarrow> nat \<Rightarrow> state \<Rightarrow> state result" where
  "seed_run cfg ev k s =
     (let (sequence_study, s1) = construct ev s;
          (sequence_recall, s2) = construct ev s1;
          s3 = s2\<lparr>predictions := []\<rparr>
      in (case for_each (epoch cfg ev k sequence_study sequence_recall)
                 [0 ..< nat (train_epochs cfg)] s3 of
            Inl e \<Rightarrow> Inl e
          | Inr s4 \<Rightarrow> if train_epochs cfg \<le> 0 then Inl (UnboundLocalError, s4) else Inr s4))"

definition run :: "config \<Rightarrow> env \<Rightarrow> state result" where
  "run cfg ev = for_each (seed_run cfg ev) [0 ..< nat (seeds cfg)] (init cfg)"

section \<open>Aggregation (lines 466-473)\<close>

text \<open>
  \<^verbatim>\<open>torch.mean(x, 0)\<close> of a stack of \<open>n \<times> n\<close> matrices: cell by cell, the sum over
  the stack divided by its height; NaN everywhere for an empty stack.
\<close>

definition torch_mean0 :: "nat \<Rightarrow> matrix list \<Rightarrow> matrix" where
  "torch_mean0 n ms =
     map (\<lambda>i. map (\<lambda>j. cdiv (foldl cadd (Some 0) (map (\<lambda>m. m ! i ! j) ms)) (length ms)) [0 ..< n])
       [0 ..< n]"

record summary =
  pearson_r_early :: "string \<rightharpoonup> matrix"
  pearson_r_late :: "string \<rightharpoonup> matrix"
  pearson_r_early_test :: "string \<rightharpoonup> cell list list"
  pearson_r_late_test :: "string \<rightharpoonup> cell list list"

definition aggregate :: "config \<Rightarrow> state \<Rightarrow> summary" where
  "aggregate cfg s =
     \<lparr>pearson_r_early =
        (\<lambda>a. map_option (\<lambda>acc. torch_mean0 (characters cfg) (early_slice acc)) (pearson_r_tensor s a)),
      pearson_r_late =
        (\<lambda>a. map_option (\<lambda>acc. torch_mean0 (characters cfg) (late_slice acc)) (pearson_r_tensor s a)),
      pearson_r_early_test = (\<lambda>a. map_option early_slice (pearson_r_test s a)),
      pearson_r_late_test = (\<lambda>a. map_option late_slice (pearson_r_test s a))\<rparr>"

definition main :: "config \<Rightarrow> env \<Rightarrow> summary result" where
  "main cfg ev = (case run cfg ev of Inl e \<Rightarrow> Inl e | Inr s \<Rightarrow> Inr (aggregate cfg s))"

section \<open>Reading the trace\<close>

text \<open>The recall probes of a trace: study step and whether gradients were off.\<close>

fun probe_call :: "event \<Rightarrow> (nat \<times> bool) list" where
  "probe_call (Model_call Recall step no_grad) = [(step, no_grad)]"
| "probe_call _ = []"

definition probe_calls :: "event list \<Rightarrow> (nat \<times> bool) list" where
  "probe_calls tr = concat (map probe_call tr)"

text \<open>
  The study steps at which the entries of a component's accumulators were appended, in
  the order of the entries (the placeholder at index 0 has none).
\<close>

fun accumulated_at :: "string \<Rightarrow> event \<Rightarrow> nat list" where
  "accumulated_at c (Accumulate a step) = (if a = c then [step] else [])"
| "accumulated_at c _ = []"

definition entry_steps :: "string \<Rightarrow> event list \<Rightarrow> nat list" where
  "entry_steps c tr = concat (map (accumulated_at c) tr)"

text \<open>The number of trials of a trace: each trial resets the model once.\<close>

definition trials_run :: "event list \<Rightarrow> nat" where
  "trials_run tr = length (filter (\<lambda>ev. ev = Reset_model) tr)"

fun constructed :: "event \<Rightarrow> nat list" where
  "constructed (Construct_generator i) = [i]"
| "constructed _ = []"

definition constructions :: "event list \<Rightarrow> nat list" where
  "constructions tr = concat (map constructed tr)"

fun generator_read :: "event \<Rightarrow> (nat \<times> nat \<times> nat) list" where
  "generator_read (Read_generator k ep i) = [(k, ep, i)]"
| "generator_read _ = []"

definition generator_reads :: "event list \<Rightarrow> (nat \<times> nat \<times> nat) list" where
  "generator_reads tr = concat (map generator_read tr)"

text \<open>
  The events of one iteration of the study loop that completes, of a whole study loop
  and of a whole trial.
\<close>

definition step_events :: "config \<Rightarrow> nat \<Rightarrow> event list" where
  "step_events cfg step =
     Model_call Study step False #
     (if int step = early_response_step cfg - 1 \<or> int step = late_response_steps cfg - 1
      then Model_call Recall step True # map (\<lambda>c. Accumulate c step) (test_components cfg)
      else [])"

definition study_events :: "config \<Rightarrow> event list" where
  "study_events cfg = concat (map (step_events cfg) [0 ..< nat (late_response_steps cfg)])"

definition metrics_events :: "config \<Rightarrow> event list" where
  "metrics_events cfg =
     (case metrics cfg of None \<Rightarrow> [] | Some mc \<Rightarrow> if mc = [] then [] else [Check_metrics])"

definition trial_events :: "config \<Rightarrow> event list" where
  "trial_events cfg = Reset_model # study_events cfg @ metrics_events cfg"

text \<open>
  Every tracked component has both accumulators, each starting with its placeholder and
  holding one further entry per completed accumulation of that component.
\<close>

definition counted :: "config \<Rightarrow> state \<Rightarrow> bool" where
  "counted cfg s \<longleftrightarrow>
     (\<forall>a \<in> set (test_components cfg). \<exists>ms vs.
        pearson_r_tensor s a
          = Some (replicate (characters cfg) (replicate (characters cfg) (Some 0)) # ms)
      \<and> pearson_r_test s a = Some (replicate (test_width cfg) (Some 0) # vs)
      \<and> length ms = length (entry_steps a (trace s))
      \<and> length vs = length (entry_steps a (trace s))
      \<and> list_all (\<lambda>m. length m = characters cfg \<and> list_all (\<lambda>r. length r = characters cfg) m) ms)"

section \<open>The statistics as the specification words them\<close>



definition cell_mean :: "cell list \<Rightarrow> cell" where
  "cell_mean cs =
     (if cs = [] \<or> list_ex (\<lambda>c. c = None) cs then None
      else Some (sum_list (map the cs) / real (length cs)))"



section \<open>A small experiment\<close>

text \<open>
  Two items, a sequence of two pairs studied in batches of one (two trials per epoch),
  and a model whose recall output is the same at every probe.
\<close>

definition demo_generator :: generator where
  "demo_generator =
     \<lparr>sequence = [(0, 1), (1, 0)], core_sequence = [(0, 1)],
      test_sequence = [(0, 0), (0, 1)], base_sequence = [(1, 1)],
      graph_sequences = [[(0, 0)], [(1, 1)], [(0, 1)], [(1, 0)]],
      core_label_sequence = [(0, 1), (1, 0)]\<rparr>"

definition demo_outputs :: "string list \<rightharpoonup> tensor2" where
  "demo_outputs =
     [[''stm'', ''memory'', ''dg''] \<mapsto> [[0, 1], [1, 0], [3, 3]],
      [''stm'', ''memory'', ''decoding''] \<mapsto> [[0, 1], [1, 0]]]"

definition demo_env :: env where
  "demo_env =
     \<lparr>new_generator = (\<lambda>i. demo_generator),
      pair_image = (\<lambda>k ep label. [real (fst label), real (snd label)]),
      recall_outputs = (\<lambda>k ep idx step. demo_outputs)\<rparr>"

definition demo_config ::
  "string list \<Rightarrow> int \<Rightarrow> int \<Rightarrow> int \<Rightarrow> int \<Rightarrow> (string \<times> string list) list option \<Rightarrow> config" where
  "demo_config components n_seeds epochs early late metrics_config =
     \<lparr>seeds = n_seeds, experiment_name = Some ''pairs_structure'',
      test_components = components, characters = 2, train_epochs = epochs,
      study_batch_size = 1, test_single_characters = True,
      early_response_step = early, late_response_steps = late,
      metrics = metrics_config\<rparr>"

text \<open>Both accumulators of each listed component exist.\<close>

definition has_accumulators :: "string list \<Rightarrow> state \<Rightarrow> bool" where
  "has_accumulators comps s \<longleftrightarrow>
     list_all (\<lambda>c. pearson_r_tensor s c \<noteq> None \<and> pearson_r_test s c \<noteq> None) comps"

section \<open>Auxiliary facts\<close>

text \<open>The recursion equation of \<open>batches\<close> is unfolded on demand only.\<close>

declare batches.simps [simp del]

lemma list_comp_Inr: "list_comp f xs = Inr ys \<longleftrightarrow> list_all2 (\<lambda>x y. f x = Inr y) xs ys"
proof (induction xs arbitrary: ys)
  case Nil
  then show ?case by auto
next
  case (Cons x xs)
  show ?case
  proof (cases "f x")
    case (Inl e)
    then show ?thesis by (simp add: list_all2_Cons1)
  next
    case fx: (Inr y)
    show ?thesis
    proof (cases "list_comp f xs")
      case (Inl e)
      have "\<not> list_all2 (\<lambda>x y. f x = Inr y) xs zs" for zs
        using Cons.IH[of zs] Inl by simp
      with Inl fx show ?thesis by (simp add: list_all2_Cons1)
    next
      case (Inr zs)
      have u: "list_all2 (\<lambda>x y. f x = Inr y) xs ws \<longleftrightarrow> ws = zs" for ws
        using Cons.IH[of ws] Inr by auto
      show ?thesis
        unfolding list_all2_Cons1 u using fx Inr by auto
    qed
  qed
qed

lemma list_comp_length: "list_comp f xs = Inr ys \<Longrightarrow> length ys = length xs"
  unfolding list_comp_Inr by (simp add: list_all2_lengthD)

lemma list_comp_nth: "list_comp f xs = Inr ys \<Longrightarrow> i < length xs \<Longrightarrow> f (xs ! i) = Inr (ys ! i)"
  unfolding list_comp_Inr by (auto dest: list_all2_nthD)

lemma early_indices_length: "length (slice_indices 1 n 2 n) = n div 2"
proof (induction n)
  case 0
  then show ?case by (simp add: slice_indices_def)
next
  case (Suc n)
  show ?case
  proof (cases "n = 0")
    case True
    then show ?thesis by (simp add: slice_indices_def)
  next
    case False
    then have "[1..<Suc n] = [1..<n] @ [n]" by simp
    with Suc False show ?thesis
      by (simp add: slice_indices_def) presburger
  qed
qed

lemma late_indices_length: "length (slice_indices 2 (Suc n) 2 n) = (n - 1) div 2"
proof (induction n)
  case 0
  then show ?case by (simp add: slice_indices_def)
next
  case (Suc n)
  show ?case
  proof (cases "n < 2")
    case True
    then show ?thesis by (simp add: slice_indices_def)
  next
    case False
    then have "[2..<Suc n] = [2..<n] @ [n]" by simp
    with Suc False show ?thesis
      by (simp add: slice_indices_def) presburger
  qed
qed



lemma dot_commute: "dot x y = dot y x"
proof -
  have "map2 (\<lambda>a b. a * b) x y = map2 (\<lambda>a b. a * b) y (x :: real list)"
    by (induction x arbitrary: y) (case_tac y; simp)+
  then show ?thesis by (simp add: dot_def)
qed

lemma pearsonr_commute: "pearsonr x y = pearsonr y x"
  by (auto simp: pearsonr_def Let_def dot_commute mult.commute)

lemma dot_self_scaled: "dot (map (\<lambda>v. v / c) xs) (map (\<lambda>v. v / c) xs) = sum_list (map (\<lambda>a. a * a) xs) / (c * c)"
proof -
  have "dot (map (\<lambda>v. v / c) xs) (map (\<lambda>v. v / c) xs) = sum_list (map (\<lambda>a. (a * a) / (c * c)) xs)"
    by (simp add: dot_def zip_same_conv_map comp_def)
  also have "\<dots> = sum_list (map (\<lambda>a. a * a) xs) / (c * c)"
    by (induction xs) (simp_all add: add_divide_distrib)
  finally show ?thesis .
qed

lemma not_constant_length: "\<not> is_constant x \<Longrightarrow> 2 \<le> length x"
  by (cases x; cases "tl x") (auto simp: is_constant_def)

lemma centred_nonzero:
  assumes "\<not> is_constant x"
  shows "sum_list (map (\<lambda>a. a * a) (map (\<lambda>v. v - m) x)) \<noteq> 0"
proof
  assume z: "sum_list (map (\<lambda>a. a * a) (map (\<lambda>v. v - m) x)) = 0"
  have "\<forall>a\<in>set (map (\<lambda>a. a * a) (map (\<lambda>v. v - m) x)). 0 \<le> a" by auto
  with z have "\<forall>a\<in>set (map (\<lambda>a. a * a) (map (\<lambda>v. v - m) x)). a = 0"
    using sum_list_nonneg_eq_0_iff by blast
  then have all: "\<forall>v\<in>set x. v = m" by auto
  from assms have "x \<noteq> []" by (auto simp: is_constant_def)
  with all have "hd x = m" by (cases x) auto
  with all have "is_constant x" by (simp add: is_constant_def list_all_iff)
  with assms show False by contradiction
qed

lemma pearsonr_self:
  assumes nc: "\<not> is_constant x"
  shows "pearsonr x x = Inr (Some 1)"
proof (cases "length x = 2")
  case True
  then obtain a b where x: "x = [a, b]"
    by (cases x; cases "tl x"; cases "tl (tl x)") auto
  with nc have "a \<noteq> b" by (auto simp: is_constant_def)
  then have "sgn (b - a) * sgn (b - a) = 1"
    by (simp add: sgn_if)
  with nc x show ?thesis by (simp add: pearsonr_def)
next
  case False
  with not_constant_length[OF nc] have len: "2 < length x" by simp
  define xm where "xm = map (\<lambda>v. v - mean x) x"
  define S where "S = sum_list (map (\<lambda>a. a * a) xm)"
  have S0: "S \<noteq> 0" unfolding S_def xm_def by (rule centred_nonzero[OF nc])
  have "0 \<le> S" unfolding S_def by (rule sum_list_nonneg) auto
  then have "norm2 xm * norm2 xm = S" by (simp add: norm2_def S_def)
  then have "dot (map (\<lambda>v. v / norm2 xm) xm) (map (\<lambda>v. v / norm2 xm) xm) = 1"
    using S0 by (simp add: dot_self_scaled S_def[symmetric])
  with nc len show ?thesis
    by (simp add: pearsonr_def Let_def xm_def[symmetric] del: map_map)
qed

lemma for_each_invariant:
  assumes "for_each body xs s = Inr s'" and "P s"
    and "\<And>x t t'. x \<in> set xs \<Longrightarrow> P t \<Longrightarrow> body x t = Inr t' \<Longrightarrow> P t'"
  shows "P s'"
  using assms
proof (induction xs arbitrary: s)
  case Nil
  then show ?case by simp
next
  case (Cons x xs)
  from Cons.prems(1) obtain t where t: "body x s = Inr t" and r: "for_each body xs t = Inr s'"
    by (auto split: sum.splits)
  have "P t" using Cons.prems(2,3) t by auto
  with r Cons.IH Cons.prems(3) show ?case by auto
qed

lemma for_each_total:
  assumes "Q s" and "\<And>x t. x \<in> set xs \<Longrightarrow> Q t \<Longrightarrow> \<exists>t'. body x t = Inr t' \<and> Q t'"
  shows "\<exists>s'. for_each body xs s = Inr s' \<and> Q s'"
  using assms
proof (induction xs arbitrary: s)
  case Nil
  then show ?case by simp
next
  case (Cons x xs)
  from Cons.prems obtain t where t: "body x s = Inr t" "Q t" by fastforce
  with Cons.IH[of t] Cons.prems(2) show ?case by auto
qed

lemma for_each_trace:
  assumes "for_each body xs s = Inr s'"
    and "\<And>x t t'. x \<in> set xs \<Longrightarrow> body x t = Inr t' \<Longrightarrow> trace t' = trace t @ evs x"
  shows "trace s' = trace s @ concat (map evs xs)"
  using assms
proof (induction xs arbitrary: s)
  case Nil
  then show ?case by simp
next
  case (Cons x xs)
  from Cons.prems(1) obtain t where t: "body x s = Inr t" and r: "for_each body xs t = Inr s'"
    by (auto split: sum.splits)
  have "trace t = trace s @ evs x" using Cons.prems(2) t by auto
  moreover have "trace s' = trace t @ concat (map evs xs)"
    using Cons.IH[OF r] Cons.prems(2) by auto
  ultimately show ?case by simp
qed

lemma accumulate_Inr:
  assumes "accumulate cfg g step c s = Inr s'"
  shows "\<exists>flat pr v ms vs.
           recall_outputs_flat s = Some flat \<and> correlate (characters cfg) flat = Inr pr
         \<and> pr \<noteq> [] \<and> length pr = characters cfg \<and> list_all (\<lambda>r. length r = characters cfg) pr
         \<and> contrast (experiment_of cfg) g pr = Inr v \<and> length v = test_width cfg
         \<and> pearson_r_tensor s c = Some ms \<and> pearson_r_test s c = Some vs
         \<and> pearson_r_tensor s' = (pearson_r_tensor s)(c \<mapsto> ms @ [pr])
         \<and> pearson_r_test s' = (pearson_r_test s)(c \<mapsto> vs @ [v])
         \<and> recall_outputs_flat s' = Some (take (characters cfg) flat)
         \<and> trace s' = trace s @ [Accumulate c step]
         \<and> predictions s' = predictions s \<and> next_generator s' = next_generator s
         \<and> recall_data_bound s' = recall_data_bound s"
  using assms
  by (auto simp: accumulate_def cat_matrix_def cat_vector_def Let_def log_event_def
      split: option.splits sum.splits if_splits)

lemma record_predictions_Inr:
  assumes "record_predictions g mp c s = Inr s'"
  shows "pearson_r_tensor s' = pearson_r_tensor s \<and> pearson_r_test s' = pearson_r_test s
       \<and> recall_outputs_flat s' = recall_outputs_flat s \<and> trace s' = trace s
       \<and> next_generator s' = next_generator s \<and> recall_data_bound s' = recall_data_bound s
       \<and> (c \<noteq> ''recon_pair'' \<longrightarrow> predictions s' = predictions s)
       \<and> (c = ''recon_pair'' \<longrightarrow> (\<exists>flat labels. recall_outputs_flat s = Some flat
             \<and> classify mp (core_label_sequence g) flat = Inr labels
             \<and> predictions s' = predictions s @ [labels]))"
  using assms
  by (auto simp: record_predictions_def split: option.splits sum.splits if_splits)

lemma process_component_Inr:
  assumes "process_component cfg g ro mp step c s = Inr s'"
  shows "\<exists>flat pr v ms vs.
           select_features ro c (recall_outputs_flat s) = Inr (Some flat)
         \<and> correlate (characters cfg) flat = Inr pr
         \<and> pr \<noteq> [] \<and> length pr = characters cfg \<and> list_all (\<lambda>r. length r = characters cfg) pr
         \<and> contrast (experiment_of cfg) g pr = Inr v \<and> length v = test_width cfg
         \<and> pearson_r_tensor s c = Some ms \<and> pearson_r_test s c = Some vs
         \<and> pearson_r_tensor s' = (pearson_r_tensor s)(c \<mapsto> ms @ [pr])
         \<and> pearson_r_test s' = (pearson_r_test s)(c \<mapsto> vs @ [v])
         \<and> recall_outputs_flat s' = Some (take (characters cfg) flat)
         \<and> trace s' = trace s @ [Accumulate c step]
         \<and> next_generator s' = next_generator s
         \<and> recall_data_bound s' = recall_data_bound s"
proof -
  from assms obtain bound s1 where
    sel: "select_features ro c (recall_outputs_flat s) = Inr bound"
    and rp: "record_predictions g mp c (s\<lparr>recall_outputs_flat := bound\<rparr>) = Inr s1"
    and acc: "accumulate cfg g step c s1 = Inr s'"
    by (auto simp: process_component_def split: sum.splits)
  from record_predictions_Inr[OF rp] have s1:
    "pearson_r_tensor s1 = pearson_r_tensor s" "pearson_r_test s1 = pearson_r_test s"
    "recall_outputs_flat s1 = bound" "trace s1 = trace s"
    "next_generator s1 = next_generator s" "recall_data_bound s1 = recall_data_bound s"
    by simp_all
  from accumulate_Inr[OF acc] s1 sel show ?thesis by auto
qed

lemma list_comp_total:
  "(\<And>x. x \<in> set xs \<Longrightarrow> \<exists>y. f x = Inr y) \<Longrightarrow> \<exists>ys. list_comp f xs = Inr ys"
proof (induction xs)
  case Nil
  then show ?case by simp
next
  case (Cons x xs)
  from Cons.prems[of x] obtain y where "f x = Inr y" by auto
  moreover from Cons obtain ys where "list_comp f xs = Inr ys" by auto
  ultimately show ?case by simp
qed

lemma pearsonr_defined:
  assumes "length x = length y" "2 \<le> length x"
  shows "\<exists>c. pearsonr x y = Inr c"
  using assms by (simp add: pearsonr_def Let_def)

lemma pearson_rows_cells:
  assumes "pearson_rows xs = Inr m"
  shows "length m = length xs"
    and "i < length xs \<Longrightarrow> length (m ! i) = length xs"
    and "i < length xs \<Longrightarrow> j < length xs \<Longrightarrow> pearsonr (xs ! j) (xs ! i) = Inr (m ! i ! j)"
proof -
  from assms have rows: "list_comp (\<lambda>b. list_comp (\<lambda>a. pearsonr a b) xs) xs = Inr m"
    by (simp add: pearson_rows_def)
  show "length m = length xs" by (rule list_comp_length[OF rows])
  {
    assume i: "i < length xs"
    from list_comp_nth[OF rows i]
    have row: "list_comp (\<lambda>a. pearsonr a (xs ! i)) xs = Inr (m ! i)" .
    show "length (m ! i) = length xs" by (rule list_comp_length[OF row])
    assume j: "j < length xs"
    show "pearsonr (xs ! j) (xs ! i) = Inr (m ! i ! j)" by (rule list_comp_nth[OF row j])
  }
qed

lemma pearson_rows_total:
  assumes "\<forall>r\<in>set xs. length r = d" "\<forall>r\<in>set xs. 2 \<le> length r"
  shows "\<exists>m. pearson_rows xs = Inr m"
  unfolding pearson_rows_def
proof (rule list_comp_total)
  fix b assume b: "b \<in> set xs"
  show "\<exists>y. list_comp (\<lambda>a. pearsonr a b) xs = Inr y"
  proof (rule list_comp_total)
    fix a assume a: "a \<in> set xs"
    from a b assms have "length a = length b" "2 \<le> length a" by auto
    then show "\<exists>y. pearsonr a b = Inr y" by (rule pearsonr_defined)
  qed
qed

lemma foldl_max_ge: "m \<le> foldl (\<lambda>m v. if m < v then v else m) (m :: real) xs"
proof (induction xs arbitrary: m)
  case Nil
  then show ?case by simp
next
  case (Cons x xs)
  have "m \<le> (if m < x then x else m)" by simp
  also have "\<dots> \<le> foldl (\<lambda>m v. if m < v then v else m) (if m < x then x else m) xs"
    by (rule Cons.IH)
  finally show ?case by simp
qed

lemma foldl_max_upper:
  "v \<in> set xs \<Longrightarrow> v \<le> foldl (\<lambda>m v. if m < v then v else m) (m :: real) xs"
proof (induction xs arbitrary: m)
  case Nil
  then show ?case by simp
next
  case (Cons x xs)
  show ?case
  proof (cases "v = x")
    case True
    have "x \<le> (if m < x then x else m)" by simp
    also have "\<dots> \<le> foldl (\<lambda>m v. if m < v then v else m) (if m < x then x else m) xs"
      by (rule foldl_max_ge)
    finally show ?thesis using True by simp
  next
    case False
    with Cons.prems have "v \<in> set xs" by simp
    from Cons.IH[OF this] show ?thesis by simp
  qed
qed

lemma foldl_max_mem:
  "foldl (\<lambda>m v. if m < v then v else m) (m :: real) xs \<in> set (m # xs)"
proof (induction xs arbitrary: m)
  case Nil
  then show ?case by simp
next
  case (Cons x xs)
  from Cons.IH[of "if m < x then x else m"] show ?case by (auto split: if_splits)
qed

lemma py_max_Inr:
  assumes "py_max t = Inr m"
  shows "m \<in> set t" and "\<forall>v\<in>set t. v \<le> m"
proof -
  from assms obtain x xs where t: "t = x # xs"
    and m: "m = foldl (\<lambda>m v. if m < v then v else m) x xs"
    by (auto simp: py_max_def split: list.splits)
  show "m \<in> set t" unfolding t m by (rule foldl_max_mem)
  show "\<forall>v\<in>set t. v \<le> m" unfolding t m
    by (auto intro: foldl_max_ge foldl_max_upper)
qed

lemma py_index_Inr:
  "py_index t v = Inr i \<Longrightarrow> i < length t \<and> t ! i = v \<and> (\<forall>j<i. t ! j \<noteq> v)"
proof (induction t arbitrary: i)
  case Nil
  then show ?case by simp
next
  case (Cons x xs)
  show ?case
  proof (cases "x = v")
    case True
    with Cons.prems show ?thesis by simp
  next
    case False
    with Cons.prems obtain i' where i': "py_index xs v = Inr i'" "i = Suc i'"
      by (auto split: sum.splits)
    from Cons.IH[OF i'(1)] False i'(2) show ?thesis
      by (auto simp: nth_Cons split: nat.splits)
  qed
qed

lemma py_index_total: "v \<in> set t \<Longrightarrow> \<exists>i. py_index t v = Inr i"
  by (induction t) auto

lemma index_of_max_Inr:
  assumes "index_of_max t = Inr i"
  shows "i < length t \<and> (\<forall>j<length t. t ! j \<le> t ! i) \<and> (\<forall>j<i. t ! j < t ! i)"
proof -
  from assms obtain m where m: "py_max t = Inr m" and i: "py_index t m = Inr i"
    by (auto simp: index_of_max_def split: sum.splits)
  from py_index_Inr[OF i] have 1: "i < length t" "t ! i = m" "\<forall>j<i. t ! j \<noteq> m" by auto
  from py_max_Inr(2)[OF m] have le: "t ! j \<le> m" if "j < length t" for j
    using that by simp
  from 1 le show ?thesis by (auto simp: less_le)
qed

lemma index_of_max_total: "t \<noteq> [] \<Longrightarrow> \<exists>i. index_of_max t = Inr i"
proof -
  assume "t \<noteq> []"
  then obtain m where m: "py_max t = Inr m" by (cases t) (auto simp: py_max_def)
  from py_index_total[OF py_max_Inr(1)[OF m]] m show ?thesis
    by (auto simp: index_of_max_def)
qed

lemma classify_Inr:
  assumes "classify mp labels_study flat = Inr labels"
  shows "length labels = length flat"
    and "k < length flat \<Longrightarrow>
           \<exists>sims i. list_comp (cos_sim (flat ! k)) mp = Inr sims
             \<and> length sims = length mp \<and> i < length sims
             \<and> (\<forall>j<length sims. sims ! j \<le> sims ! i) \<and> (\<forall>j<i. sims ! j < sims ! i)
             \<and> i < length labels_study \<and> labels ! k = labels_study ! i"
proof -
  from assms obtain similarity similarity_idx where
    s: "list_comp (\<lambda>a. list_comp (\<lambda>b. cos_sim a b) mp) flat = Inr similarity"
    and x: "list_comp index_of_max similarity = Inr similarity_idx"
    and l: "list_comp (getitem labels_study) similarity_idx = Inr labels"
    by (auto simp: classify_def split: sum.splits)
  have len: "length similarity = length flat" "length similarity_idx = length flat"
    "length labels = length flat"
    using list_comp_length[OF s] list_comp_length[OF x] list_comp_length[OF l] by simp_all
  show "length labels = length flat" by fact
  assume k: "k < length flat"
  from list_comp_nth[OF s k]
  have sims: "list_comp (cos_sim (flat ! k)) mp = Inr (similarity ! k)" .
  from k len have "k < length similarity" by simp
  from list_comp_nth[OF x this]
  have im: "index_of_max (similarity ! k) = Inr (similarity_idx ! k)" .
  from k len have "k < length similarity_idx" by simp
  from list_comp_nth[OF l this]
  have "getitem labels_study (similarity_idx ! k) = Inr (labels ! k)" .
  then have g: "similarity_idx ! k < length labels_study"
    "labels ! k = labels_study ! (similarity_idx ! k)"
    by (auto simp: getitem_def split: if_splits)
  from sims list_comp_length[OF sims] index_of_max_Inr[OF im] g
  show "\<exists>sims i. list_comp (cos_sim (flat ! k)) mp = Inr sims
             \<and> length sims = length mp \<and> i < length sims
             \<and> (\<forall>j<length sims. sims ! j \<le> sims ! i) \<and> (\<forall>j<i. sims ! j < sims ! i)
             \<and> i < length labels_study \<and> labels ! k = labels_study ! i"
    by (intro exI[of _ "similarity ! k"] exI[of _ "similarity_idx ! k"]) simp
qed

lemma demo_fields [simp]:
  "characters (demo_config comps ns E e l m) = 2"
  "test_components (demo_config comps ns E e l m) = comps"
  "experiment_of (demo_config comps ns E e l m) = ''pairs_structure''"
  "test_width (demo_config comps ns E e l m) = 2"
  "seeds (demo_config comps ns E e l m) = ns"
  "train_epochs (demo_config comps ns E e l m) = E"
  "early_response_step (demo_config comps ns E e l m) = e"
  "late_response_steps (demo_config comps ns E e l m) = l"
  "metrics (demo_config comps ns E e l m) = m"
  "study_batch_size (demo_config comps ns E e l m) = 1"
  "test_single_characters (demo_config comps ns E e l m)"
  by (simp_all add: demo_config_def experiment_of_def test_width_def)

lemma demo_pearsonr:
  "pearsonr [0, 1] [0, 1] = Inr (Some 1)" "pearsonr [1, 0] [1, 0] = Inr (Some 1)"
  "pearsonr [0, 1] [1, 0] = Inr (Some (- 1))" "pearsonr [1, 0] [0, 1] = Inr (Some (- 1))"
  by (simp_all add: pearsonr_def is_constant_def)

lemma demo_correlate:
  "correlate 2 [[0, 1], [1, 0], [3, 3]] = Inr [[Some 1, Some (- 1)], [Some (- 1), Some 1]]"
  "correlate 2 [[0, 1], [1, 0]] = Inr [[Some 1, Some (- 1)], [Some (- 1), Some 1]]"
  by (simp_all add: correlate_def pearson_rows_def demo_pearsonr)

lemma demo_contrast:
  "contrast ''pairs_structure'' demo_generator [[Some 1, Some (- 1)], [Some (- 1), Some 1]]
     = Inr [Some (- 1), Some 0]"
  by (simp add: contrast_def pattern_mean_def cell_at_def py_sum_def cadd_def cdiv_def
      demo_generator_def)

lemma demo_cos:
  "cos_sim [0, 1] [0, 1] = Inr 1" "cos_sim [0, 1] [1, 0] = Inr 0"
  "cos_sim [1, 0] [0, 1] = Inr 0" "cos_sim [1, 0] [1, 0] = Inr 1"
  by (simp_all add: cos_sim_def dot_def norm2_def)

text \<open>Two parallel vectors with small norms: each norm is clamped on its own, so the
  similarity is 1.\<close>

lemma cos_sim_small_norms:
  "cos_sim [1 / 1024, 0] [1 / 16384, 0] = Inr 1" "cos_sim [0, 0] [1, 0] = Inr 0"
  by (simp_all add: cos_sim_def dot_def norm2_def real_sqrt_divide)

lemma demo_classify:
  "classify [[0, 1], [1, 0]] [(0, Suc 0), (Suc 0, 0)] [[0, 1], [1, 0]]
     = Inr [(0, Suc 0), (Suc 0, 0)]"
  by (simp add: classify_def demo_cos index_of_max_def py_max_def getitem_def)

lemma demo_generator_labels [simp]:
  "core_label_sequence demo_generator = [(0, 1), (1, 0)]"
  "sequence demo_generator = [(0, 1), (1, 0)]"
  by (simp_all add: demo_generator_def)

lemma demo_process_dg:
  assumes "pearson_r_tensor s ''dg'' = Some ms" "pearson_r_test s ''dg'' = Some vs"
  shows "process_component (demo_config comps ns E e l m) demo_generator demo_outputs mp step ''dg'' s
     = Inr (s\<lparr>pearson_r_tensor :=
                (pearson_r_tensor s)(''dg'' \<mapsto> ms @ [[[Some 1, Some (- 1)], [Some (- 1), Some 1]]]),
              pearson_r_test := (pearson_r_test s)(''dg'' \<mapsto> vs @ [[Some (- 1), Some 0]]),
              recall_outputs_flat := Some [[0, 1], [1, 0]],
              trace := trace s @ [Accumulate ''dg'' step]\<rparr>)"
  using assms
  by (simp add: process_component_def select_features_def fetch_def demo_outputs_def
      record_predictions_def accumulate_def demo_correlate demo_contrast cat_matrix_def
      cat_vector_def log_event_def Let_def)

lemma demo_process_recon_pair:
  assumes "pearson_r_tensor s ''recon_pair'' = Some ms" "pearson_r_test s ''recon_pair'' = Some vs"
  shows "process_component (demo_config comps ns E e l m) demo_generator demo_outputs
           [[0, 1], [1, 0]] step ''recon_pair'' s
     = Inr (s\<lparr>pearson_r_tensor :=
                (pearson_r_tensor s)(''recon_pair'' \<mapsto> ms @ [[[Some 1, Some (- 1)], [Some (- 1), Some 1]]]),
              pearson_r_test := (pearson_r_test s)(''recon_pair'' \<mapsto> vs @ [[Some (- 1), Some 0]]),
              recall_outputs_flat := Some [[0, 1], [1, 0]],
              predictions := predictions s @ [[(0, 1), (1, 0)]],
              trace := trace s @ [Accumulate ''recon_pair'' step]\<rparr>)"
  using assms
  by (simp add: process_component_def select_features_def fetch_def demo_outputs_def
      record_predictions_def accumulate_def demo_correlate demo_contrast demo_classify
      cat_matrix_def cat_vector_def log_event_def Let_def)

lemma demo_process_ltm:
  assumes "pearson_r_tensor s ''ltm'' = Some ms" "pearson_r_test s ''ltm'' = Some vs"
    and "recall_outputs_flat s = Some [[0, 1], [1, 0]]"
  shows "process_component (demo_config comps ns E e l m) demo_generator demo_outputs mp step ''ltm'' s
     = Inr (s\<lparr>pearson_r_tensor :=
                (pearson_r_tensor s)(''ltm'' \<mapsto> ms @ [[[Some 1, Some (- 1)], [Some (- 1), Some 1]]]),
              pearson_r_test := (pearson_r_test s)(''ltm'' \<mapsto> vs @ [[Some (- 1), Some 0]]),
              trace := trace s @ [Accumulate ''ltm'' step]\<rparr>)"
  using assms
  by (simp add: process_component_def select_features_def fetch_def demo_outputs_def
      record_predictions_def accumulate_def demo_correlate demo_contrast cat_matrix_def
      cat_vector_def log_event_def Let_def)

lemma cadd_simps [simp]:
  "cadd None b = None" "cadd a None = None" "cadd (Some x) (Some y) = Some (x + y)"
  by (simp_all add: cadd_def split: option.splits)

lemma foldl_cadd_None: "foldl cadd None cs = None"
  by (induction cs) simp_all

lemma foldl_cadd_Some:
  "foldl cadd (Some a) cs
     = (if list_ex (\<lambda>c. c = None) cs then None else Some (a + sum_list (map the cs)))"
proof (induction cs arbitrary: a)
  case Nil
  then show ?case by simp
next
  case (Cons c cs)
  show ?case
  proof (cases c)
    case None
    then show ?thesis by (simp add: foldl_cadd_None)
  next
    case (Some x)
    then show ?thesis using Cons.IH[of "a + x"] by (simp add: add.assoc)
  qed
qed

lemma cdiv_sum_is_cell_mean:
  "cs \<noteq> [] \<Longrightarrow> cdiv (foldl cadd (Some 0) cs) (length cs) = cell_mean cs"
  by (simp add: foldl_cadd_Some cell_mean_def cdiv_def)

lemma cdiv_sum_empty: "cdiv (foldl cadd (Some 0) []) (length ([] :: cell list)) = cell_mean []"
  by (simp add: cell_mean_def cdiv_def)





lemma concat_map_single: "concat (map (\<lambda>x. [f x]) xs) = map f xs"
  by (induction xs) simp_all

lemma components_loop_Inr:
  assumes "for_each (process_component cfg g ro mp step) cs s = Inr s'"
  shows "trace s' = trace s @ map (\<lambda>c. Accumulate c step) cs"
    and "next_generator s' = next_generator s"
    and "recall_data_bound s' = recall_data_bound s"
proof -
  have "trace s' = trace s @ concat (map (\<lambda>c. [Accumulate c step]) cs)"
    using assms by (rule for_each_trace) (auto dest: process_component_Inr)
  then show "trace s' = trace s @ map (\<lambda>c. Accumulate c step) cs"
    by (simp add: concat_map_single)
  show "next_generator s' = next_generator s"
    using assms
    by (rule for_each_invariant[where P = "\<lambda>t. next_generator t = next_generator s"])
       (auto dest: process_component_Inr)
  show "recall_data_bound s' = recall_data_bound s"
    using assms
    by (rule for_each_invariant[where P = "\<lambda>t. recall_data_bound t = recall_data_bound s"])
       (auto dest: process_component_Inr)
qed

lemma probe_Inr:
  assumes "probe cfg ev g mp k ep idx step s = Inr s'"
  shows "trace s' = trace s @ Model_call Recall step True
                     # map (\<lambda>c. Accumulate c step) (test_components cfg)"
    and "next_generator s' = next_generator s"
    and "recall_data_bound s' = recall_data_bound s"
  using components_loop_Inr[OF assms[unfolded probe_def]]
  by (simp_all add: log_event_def)

lemma study_step_Inr:
  assumes "study_step cfg ev g mp k ep idx step s = Inr s'"
  shows "trace s' = trace s @ step_events cfg step"
    and "next_generator s' = next_generator s"
    and "recall_data_bound s' = recall_data_bound s"
proof -
  let ?s1 = "log_event (Model_call Study step False) s"
  show "trace s' = trace s @ step_events cfg step"
  proof (cases "int step = early_response_step cfg - 1 \<or> int step = late_response_steps cfg - 1")
    case True
    with assms have "probe cfg ev g mp k ep idx step ?s1 = Inr s'"
      by (simp add: study_step_def Let_def)
    from probe_Inr(1)[OF this] True show ?thesis
      by (simp add: step_events_def log_event_def)
  next
    case False
    with assms show ?thesis
      by (auto simp: study_step_def Let_def step_events_def log_event_def)
  qed
  show "next_generator s' = next_generator s"
    using assms probe_Inr(2)[of cfg ev g mp k ep idx step ?s1 s']
    by (auto simp: study_step_def Let_def log_event_def split: if_splits)
  show "recall_data_bound s' = recall_data_bound s"
    using assms probe_Inr(3)[of cfg ev g mp k ep idx step ?s1 s']
    by (auto simp: study_step_def Let_def log_event_def split: if_splits)
qed

lemma study_Inr:
  assumes "study cfg ev g mp k ep idx s = Inr s'"
  shows "trace s' = trace s @ study_events cfg"
    and "next_generator s' = next_generator s"
    and "recall_data_bound s' = recall_data_bound s"
proof -
  note loop = assms[unfolded study_def]
  show "trace s' = trace s @ study_events cfg"
    unfolding study_events_def using loop
    by (rule for_each_trace) (rule study_step_Inr(1))
  show "next_generator s' = next_generator s"
    using loop
    by (rule for_each_invariant[where P = "\<lambda>t. next_generator t = next_generator s"])
       (auto dest: study_step_Inr(2))
  show "recall_data_bound s' = recall_data_bound s"
    using loop
    by (rule for_each_invariant[where P = "\<lambda>t. recall_data_bound t = recall_data_bound s"])
       (auto dest: study_step_Inr(3))
qed

lemma check_metrics_Inr:
  assumes "check_metrics cfg s = Inr s'"
  shows "trace s' = trace s @ metrics_events cfg"
    and "next_generator s' = next_generator s"
    and "pearson_r_tensor s' = pearson_r_tensor s"
    and "pearson_r_test s' = pearson_r_test s"
  using assms
  by (auto simp: check_metrics_def metrics_events_def log_event_def Let_def
      split: option.splits if_splits)

lemma trial_Inr:
  assumes "trial cfg ev g mp k ep idx s = Inr s'"
  shows "trace s' = trace s @ trial_events cfg"
    and "next_generator s' = next_generator s"
proof -
  let ?s1 = "log_event Reset_model (s\<lparr>recall_data_bound := True\<rparr>)"
  from assms obtain s2 where
    st: "study cfg ev g mp k ep idx ?s1 = Inr s2" and cm: "check_metrics cfg s2 = Inr s'"
    by (auto simp: trial_def Let_def split: if_splits sum.splits)
  from study_Inr(1)[OF st] check_metrics_Inr(1)[OF cm]
  show "trace s' = trace s @ trial_events cfg"
    by (simp add: trial_events_def log_event_def)
  from study_Inr(2)[OF st] check_metrics_Inr(2)[OF cm]
  show "next_generator s' = next_generator s"
    by (simp add: log_event_def)
qed

lemma probe_calls_append [simp]: "probe_calls (xs @ ys) = probe_calls xs @ probe_calls ys"
  by (simp add: probe_calls_def)

lemma probe_calls_Cons [simp]: "probe_calls (x # xs) = probe_call x @ probe_calls xs"
  by (simp add: probe_calls_def)

lemma probe_calls_Nil [simp]: "probe_calls [] = []"
  by (simp add: probe_calls_def)

lemma probe_calls_accumulate [simp]: "probe_calls (map (\<lambda>c. Accumulate c step) cs) = []"
  by (induction cs) simp_all

lemma probe_calls_step_events:
  "probe_calls (step_events cfg step)
     = (if int step = early_response_step cfg - 1 \<or> int step = late_response_steps cfg - 1
        then [(step, True)] else [])"
  by (simp add: step_events_def)

lemma probe_calls_steps:
  "probe_calls (concat (map (step_events cfg) steps))
     = map (\<lambda>step. (step, True))
         (filter (\<lambda>step. int step = early_response_step cfg - 1
                        \<or> int step = late_response_steps cfg - 1) steps)"
  by (induction steps) (simp_all add: probe_calls_step_events)

lemma filter_two_upt:
  assumes "a < b" "b < n"
  shows "filter (\<lambda>i. i = a \<or> i = b) [0 ..< n] = [a, b]"
proof (rule sorted_distinct_set_unique)
  show "sorted (filter (\<lambda>i. i = a \<or> i = b) [0 ..< n])" by (simp add: sorted_wrt_filter)
  show "distinct (filter (\<lambda>i. i = a \<or> i = b) [0 ..< n])" by simp
  show "sorted [a, b]" using assms by simp
  show "distinct [a, b]" using assms by simp
  show "set (filter (\<lambda>i. i = a \<or> i = b) [0 ..< n]) = set [a, b]" using assms by auto
qed

lemma filter_one_upt:
  assumes "b < n"
  shows "filter (\<lambda>i. i = b) [0 ..< n] = [b]"
proof (rule sorted_distinct_set_unique)
  show "sorted (filter (\<lambda>i. i = b) [0 ..< n])" by (simp add: sorted_wrt_filter)
  show "distinct (filter (\<lambda>i. i = b) [0 ..< n])" by simp
  show "set (filter (\<lambda>i. i = b) [0 ..< n]) = set [b]" using assms by auto
qed simp_all

lemma probe_steps_two:
  assumes "1 \<le> e" "e < l"
  shows "filter (\<lambda>step. int step = e - 1 \<or> int step = l - 1) [0 ..< nat l] = [nat (e - 1), nat (l - 1)]"
proof -
  have "(\<lambda>step. int step = e - 1 \<or> int step = l - 1) = (\<lambda>i. i = nat (e - 1) \<or> i = nat (l - 1))"
    using assms by (auto simp: fun_eq_iff)
  moreover have "nat (e - 1) < nat (l - 1)" "nat (l - 1) < nat l" using assms by auto
  ultimately show ?thesis using filter_two_upt by simp
qed

lemma probe_steps_one:
  assumes "1 \<le> l" "e < 1 \<or> l \<le> e"
  shows "filter (\<lambda>step. int step = e - 1 \<or> int step = l - 1) [0 ..< nat l] = [nat (l - 1)]"
proof -
  have "filter (\<lambda>step. int step = e - 1 \<or> int step = l - 1) [0 ..< nat l]
      = filter (\<lambda>i. i = nat (l - 1)) [0 ..< nat l]"
    using assms by (intro filter_cong) auto
  moreover have "nat (l - 1) < nat l" using assms by auto
  ultimately show ?thesis using filter_one_upt by simp
qed

lemma demo_component_ok:
  assumes c: "c = ''dg'' \<or> c = ''recon_pair''" and mem: "c \<in> set comps"
    and q: "has_accumulators comps s"
  shows "\<exists>s'. process_component (demo_config comps ns E e l m) demo_generator demo_outputs
                 [[0, 1], [1, 0]] step c s = Inr s' \<and> has_accumulators comps s'"
proof -
  from q mem obtain ms vs where acc: "pearson_r_tensor s c = Some ms" "pearson_r_test s c = Some vs"
    by (auto simp: has_accumulators_def list_all_iff)
  from c show ?thesis
  proof
    assume "c = ''dg''"
    with acc q show ?thesis
      by (simp add: demo_process_dg has_accumulators_def list_all_iff)
  next
    assume "c = ''recon_pair''"
    with acc q show ?thesis
      by (simp add: demo_process_recon_pair has_accumulators_def list_all_iff)
  qed
qed

lemma demo_probe_ok:
  assumes "set comps \<subseteq> {''dg'', ''recon_pair''}" "has_accumulators comps s"
  shows "\<exists>s'. probe (demo_config comps ns E e l m) demo_env demo_generator
                 [[0, 1], [1, 0]] k ep idx step s = Inr s' \<and> has_accumulators comps s'"
  unfolding probe_def
proof (rule for_each_total)
  show "has_accumulators comps (log_event (Model_call Recall step True) s)"
    using assms(2) by (simp add: has_accumulators_def log_event_def)
next
  fix x t
  assume "x \<in> set (test_components (demo_config comps ns E e l m))" "has_accumulators comps t"
  with assms(1) demo_component_ok[of x comps t ns E e l m step]
  show "\<exists>t'. process_component (demo_config comps ns E e l m) demo_generator
               (recall_outputs demo_env k ep idx step) [[0, 1], [1, 0]] step x t = Inr t'
             \<and> has_accumulators comps t'"
    by (auto simp: demo_env_def)
qed

lemma demo_study_ok:
  assumes "set comps \<subseteq> {''dg'', ''recon_pair''}" "has_accumulators comps s"
  shows "\<exists>s'. study (demo_config comps ns E e l m) demo_env demo_generator
                 [[0, 1], [1, 0]] k ep idx s = Inr s' \<and> has_accumulators comps s'"
  unfolding study_def
proof (rule for_each_total)
  show "has_accumulators comps s" by fact
next
  fix x t
  assume t: "has_accumulators comps t"
  then have t1: "has_accumulators comps (log_event (Model_call Study x False) t)"
    by (simp add: has_accumulators_def log_event_def)
  from demo_probe_ok[OF assms(1) t1] t1
  show "\<exists>t'. study_step (demo_config comps ns E e l m) demo_env demo_generator
               [[0, 1], [1, 0]] k ep idx x t = Inr t' \<and> has_accumulators comps t'"
    by (auto simp: study_step_def Let_def)
qed

lemma demo_trial_ok:
  assumes "set comps \<subseteq> {''dg'', ''recon_pair''}" "has_accumulators comps s"
  shows "\<exists>s'. trial (demo_config comps ns E e l None) demo_env demo_generator
                 [[0, 1], [1, 0]] k ep idx s = Inr s' \<and> has_accumulators comps s'"
proof -
  have "has_accumulators comps (log_event Reset_model (s\<lparr>recall_data_bound := True\<rparr>))"
    using assms(2) by (simp add: has_accumulators_def log_event_def)
  from demo_study_ok[OF assms(1) this, of ns E e l None k ep idx]
  obtain s2 where "study (demo_config comps ns E e l None) demo_env demo_generator
                 [[0, 1], [1, 0]] k ep idx (log_event Reset_model (s\<lparr>recall_data_bound := True\<rparr>))
                 = Inr s2" "has_accumulators comps s2"
    by blast
  then show ?thesis
    by (simp add: trial_def Let_def check_metrics_def)
qed

lemma demo_batches: "batches (Suc 0) [(0 :: nat, Suc 0), (Suc 0, 0 :: nat)] = [[(0, Suc 0)], [(Suc 0, 0)]]"
  by (simp add: batches.simps)

lemma demo_epoch_ok:
  assumes "set comps \<subseteq> {''dg'', ''recon_pair''}" "has_accumulators comps s"
  shows "\<exists>s'. epoch (demo_config comps ns E e l None) demo_env k (i, demo_generator)
                 (j, demo_generator) ep s = Inr s' \<and> has_accumulators comps s'"
proof -
  let ?s1 = "log_event (Read_generator k ep j) (log_event (Read_generator k ep i) s)"
  have s1: "has_accumulators comps ?s1"
    using assms(2) by (simp add: has_accumulators_def log_event_def)
  have e: "epoch (demo_config comps ns E e l None) demo_env k (i, demo_generator)
                 (j, demo_generator) ep s
      = for_each (\<lambda>idx. trial (demo_config comps ns E e l None) demo_env demo_generator
                 [[0, 1], [1, 0]] k ep idx) [0, Suc 0] ?s1"
    by (simp add: epoch_def Let_def demo_batches demo_env_def del: for_each.simps)
  show ?thesis
    unfolding e using s1 by (rule for_each_total) (rule demo_trial_ok[OF assms(1)])
qed

lemma demo_seed_ok:
  assumes "set comps \<subseteq> {''dg'', ''recon_pair''}" "has_accumulators comps s" "1 \<le> E"
  shows "\<exists>s'. seed_run (demo_config comps ns E e l None) demo_env k s = Inr s'
             \<and> has_accumulators comps s'"
proof -
  let ?i = "next_generator s"
  let ?s3 = "(log_event (Construct_generator (Suc ?i))
               ((log_event (Construct_generator ?i) (s\<lparr>next_generator := Suc ?i\<rparr>))
                  \<lparr>next_generator := Suc (Suc ?i)\<rparr>))\<lparr>predictions := []\<rparr>"
  have s3: "has_accumulators comps ?s3"
    using assms(2) by (simp add: has_accumulators_def log_event_def)
  have "\<exists>s'. for_each (epoch (demo_config comps ns E e l None) demo_env k (?i, demo_generator)
                  (Suc ?i, demo_generator)) [0 ..< nat E] ?s3 = Inr s' \<and> has_accumulators comps s'"
    using s3 by (rule for_each_total) (rule demo_epoch_ok[OF assms(1)])
  with assms(3) show ?thesis
    by (auto simp: seed_run_def construct_def Let_def demo_env_def log_event_def)
qed

lemma init_has_accumulators: "has_accumulators (test_components cfg) (init cfg)"
  by (simp add: has_accumulators_def init_def list_all_iff)

lemma demo_run_ok:
  assumes "set comps \<subseteq> {''dg'', ''recon_pair''}" "1 \<le> E"
  shows "\<exists>s'. run (demo_config comps ns E e l None) demo_env = Inr s'"
proof -
  have "has_accumulators comps (init (demo_config comps ns E e l None))"
    using init_has_accumulators[of "demo_config comps ns E e l None"] by simp
  then have "\<exists>s'. for_each (seed_run (demo_config comps ns E e l None) demo_env)
                     [0 ..< nat ns] (init (demo_config comps ns E e l None)) = Inr s'
                 \<and> has_accumulators comps s'"
    by (rule for_each_total) (rule demo_seed_ok[OF assms(1) _ assms(2)])
  then show ?thesis by (auto simp: run_def)
qed

lemma probe_calls_study_events_one:
  assumes "1 \<le> late_response_steps cfg"
    and "early_response_step cfg < 1 \<or> late_response_steps cfg \<le> early_response_step cfg"
  shows "probe_calls (study_events cfg) = [(nat (late_response_steps cfg - 1), True)]"
  unfolding study_events_def probe_calls_steps probe_steps_one[OF assms] by simp



lemma demo_epoch_unfold:
  "epoch (demo_config comps ns E e l m) demo_env k (i, demo_generator) (j, demo_generator) ep s
     = for_each (\<lambda>idx. trial (demo_config comps ns E e l m) demo_env demo_generator
                 [[0, 1], [1, 0]] k ep idx) [0, Suc 0]
         (log_event (Read_generator k ep j) (log_event (Read_generator k ep i) s))"
  by (simp add: epoch_def Let_def demo_batches demo_env_def del: for_each.simps)

lemma demo_seed_unfold:
  "seed_run (demo_config comps ns E e l m) demo_env k s
     = (case for_each (epoch (demo_config comps ns E e l m) demo_env k
                         (next_generator s, demo_generator) (Suc (next_generator s), demo_generator))
               [0 ..< nat E]
               (s\<lparr>next_generator := Suc (Suc (next_generator s)),
                   trace := trace s @ [Construct_generator (next_generator s),
                                       Construct_generator (Suc (next_generator s))],
                   predictions := []\<rparr>) of
          Inl err \<Rightarrow> Inl err
        | Inr s4 \<Rightarrow> if E \<le> 0 then Inl (UnboundLocalError, s4) else Inr s4)"
  by (simp add: seed_run_def construct_def Let_def demo_env_def log_event_def split: sum.splits)

lemma entry_steps_simps [simp]:
  "entry_steps a [] = []"
  "entry_steps a (xs @ ys) = entry_steps a xs @ entry_steps a ys"
  "entry_steps a (x # xs) = accumulated_at a x @ entry_steps a xs"
  by (simp_all add: entry_steps_def)

lemma trials_run_simps [simp]:
  "trials_run [] = 0"
  "trials_run (xs @ ys) = trials_run xs + trials_run ys"
  "trials_run (x # xs) = (if x = Reset_model then 1 else 0) + trials_run xs"
  by (simp_all add: trials_run_def)

lemma constructions_simps [simp]:
  "constructions [] = []"
  "constructions (xs @ ys) = constructions xs @ constructions ys"
  "constructions (x # xs) = constructed x @ constructions xs"
  by (simp_all add: constructions_def)

lemma generator_reads_simps [simp]:
  "generator_reads [] = []"
  "generator_reads (xs @ ys) = generator_reads xs @ generator_reads ys"
  "generator_reads (x # xs) = generator_read x @ generator_reads xs"
  by (simp_all add: generator_reads_def)

lemma accumulate_events:
  "entry_steps a (map (\<lambda>c. Accumulate c step) cs) = replicate (count_list cs a) step"
  "trials_run (map (\<lambda>c. Accumulate c step) cs) = 0"
  "constructions (map (\<lambda>c. Accumulate c step) cs) = []"
  "generator_reads (map (\<lambda>c. Accumulate c step) cs) = []"
  by (induction cs) auto

lemma step_events_projections:
  "entry_steps a (step_events cfg step)
     = (if int step = early_response_step cfg - 1 \<or> int step = late_response_steps cfg - 1
        then replicate (count_list (test_components cfg) a) step else [])"
  "trials_run (step_events cfg step) = 0"
  "constructions (step_events cfg step) = []"
  "generator_reads (step_events cfg step) = []"
  by (simp_all add: step_events_def accumulate_events)

lemma steps_projections:
  "entry_steps a (concat (map (step_events cfg) steps))
     = concat (map (\<lambda>step. replicate (count_list (test_components cfg) a) step)
         (filter (\<lambda>step. int step = early_response_step cfg - 1
                        \<or> int step = late_response_steps cfg - 1) steps))"
  "trials_run (concat (map (step_events cfg) steps)) = 0"
  "constructions (concat (map (step_events cfg) steps)) = []"
  "generator_reads (concat (map (step_events cfg) steps)) = []"
  by (induction steps) (simp_all add: step_events_projections)

lemma trial_events_projections:
  "trials_run (trial_events cfg) = 1"
  "constructions (trial_events cfg) = []"
  "generator_reads (trial_events cfg) = []"
  by (simp_all add: trial_events_def study_events_def steps_projections metrics_events_def
      split: option.splits)

lemma count_list_distinct: "distinct xs \<Longrightarrow> a \<in> set xs \<Longrightarrow> count_list xs a = 1"
  by (induction xs) (auto simp: count_list_0_iff)

lemma concat_replicate_snoc: "concat (replicate n xs) @ xs = concat (replicate (Suc n) xs)"
  by (induction n) simp_all

lemma trial_events_entry_steps:
  assumes "1 \<le> early_response_step cfg" "early_response_step cfg < late_response_steps cfg"
    and "distinct (test_components cfg)" "a \<in> set (test_components cfg)"
  shows "entry_steps a (trial_events cfg)
           = [nat (early_response_step cfg - 1), nat (late_response_steps cfg - 1)]"
proof -
  from assms(3,4) have "count_list (test_components cfg) a = 1"
    by (rule count_list_distinct)
  then show ?thesis
    by (simp add: trial_events_def study_events_def steps_projections
        probe_steps_two[OF assms(1,2)] metrics_events_def split: option.splits)
qed

lemma epoch_trace_invariant:
  assumes "epoch cfg ev k sg rg ep s = Inr s'" and "P (trace s)"
    and "\<And>tr k ep i. P tr \<Longrightarrow> P (tr @ [Read_generator k ep i])"
    and "\<And>tr. P tr \<Longrightarrow> P (tr @ trial_events cfg)"
  shows "P (trace s')"
proof -
  let ?s1 = "log_event (Read_generator k ep (fst rg)) (log_event (Read_generator k ep (fst sg)) s)"
  from assms(1) obtain trials where
    loop: "for_each (\<lambda>idx. trial cfg ev (snd sg)
             (map (pair_image ev k ep) (core_label_sequence (snd sg))) k ep idx) trials ?s1 = Inr s'"
    by (auto simp: epoch_def Let_def split: if_splits)
  have "P (trace s @ [Read_generator k ep (fst sg)])" using assms(2) by (rule assms(3))
  then have "P ((trace s @ [Read_generator k ep (fst sg)]) @ [Read_generator k ep (fst rg)])"
    by (rule assms(3))
  then have start: "P (trace ?s1)" by (simp add: log_event_def)
  show ?thesis
  proof (rule for_each_invariant[where P = "\<lambda>t. P (trace t)", OF loop start])
    fix x t t'
    assume p: "P (trace t)"
      and t: "trial cfg ev (snd sg) (map (pair_image ev k ep) (core_label_sequence (snd sg)))
                k ep x t = Inr t'"
    from assms(4)[OF p] trial_Inr(1)[OF t] show "P (trace t')" by simp
  qed
qed


lemma seed_trace_invariant:
  assumes "seed_run cfg ev k s = Inr s'" and "P (trace s)"
    and "\<And>tr i. P tr \<Longrightarrow> P (tr @ [Construct_generator i])"
    and "\<And>tr k ep i. P tr \<Longrightarrow> P (tr @ [Read_generator k ep i])"
    and "\<And>tr. P tr \<Longrightarrow> P (tr @ trial_events cfg)"
  shows "P (trace s')"
proof -
  from assms(1) obtain sg rg s3 where
    loop: "for_each (epoch cfg ev k sg rg) [0 ..< nat (train_epochs cfg)] s3 = Inr s'"
    and s3: "trace s3 = (trace s @ [Construct_generator (next_generator s)])
                          @ [Construct_generator (Suc (next_generator s))]"
    by (auto simp: seed_run_def construct_def Let_def log_event_def split: sum.splits if_splits)
  have "P (trace s @ [Construct_generator (next_generator s)])" using assms(2) by (rule assms(3))
  then have start: "P (trace s3)" unfolding s3 by (rule assms(3))
  show ?thesis
  proof (rule for_each_invariant[where P = "\<lambda>t. P (trace t)", OF loop start])
    fix x t t'
    assume p: "P (trace t)" and e: "epoch cfg ev k sg rg x t = Inr t'"
    show "P (trace t')" by (rule epoch_trace_invariant[OF e p assms(4) assms(5)])
  qed
qed

lemma run_trace_invariant:
  assumes "run cfg ev = Inr s" and "P []"
    and "\<And>tr i. P tr \<Longrightarrow> P (tr @ [Construct_generator i])"
    and "\<And>tr k ep i. P tr \<Longrightarrow> P (tr @ [Read_generator k ep i])"
    and "\<And>tr. P tr \<Longrightarrow> P (tr @ trial_events cfg)"
  shows "P (trace s)"
proof -
  have start: "P (trace (init cfg))" using assms(2) by (simp add: init_def)
  show ?thesis
  proof (rule for_each_invariant[where P = "\<lambda>t. P (trace t)", OF assms(1)[unfolded run_def] start])
    fix x t t'
    assume p: "P (trace t)" and e: "seed_run cfg ev x t = Inr t'"
    show "P (trace t')" by (rule seed_trace_invariant[OF e p assms(3) assms(4) assms(5)])
  qed
qed

lemma run_entry_steps:
  assumes "run cfg ev = Inr s"
    and "1 \<le> early_response_step cfg" "early_response_step cfg < late_response_steps cfg"
    and "distinct (test_components cfg)" "a \<in> set (test_components cfg)"
  shows "entry_steps a (trace s)
           = concat (replicate (trials_run (trace s))
               [nat (early_response_step cfg - 1), nat (late_response_steps cfg - 1)])"
  using assms(1)
proof (rule run_trace_invariant)
  fix tr
  assume "entry_steps a tr = concat (replicate (trials_run tr)
               [nat (early_response_step cfg - 1), nat (late_response_steps cfg - 1)])"
  then show "entry_steps a (tr @ trial_events cfg)
           = concat (replicate (trials_run (tr @ trial_events cfg))
               [nat (early_response_step cfg - 1), nat (late_response_steps cfg - 1)])"
    by (simp add: trial_events_projections trial_events_entry_steps[OF assms(2-5)]
        concat_replicate_snoc del: replicate_Suc concat.simps)
qed simp_all

lemma counted_cong:
  assumes "counted cfg s" and "pearson_r_tensor t = pearson_r_tensor s"
    and "pearson_r_test t = pearson_r_test s"
    and "\<And>a. entry_steps a (trace t) = entry_steps a (trace s)"
  shows "counted cfg t"
  using assms unfolding counted_def by simp

lemma counted_log:
  assumes "counted cfg s" and "\<And>a. accumulated_at a e = []"
  shows "counted cfg (log_event e s)"
  using assms(1)
  by (rule counted_cong) (simp_all add: log_event_def assms(2))

lemma counted_process:
  assumes c: "counted cfg s" and p: "process_component cfg g ro mp step c s = Inr s'"
  shows "counted cfg s'"
proof -
  from process_component_Inr[OF p] obtain pr v ms vs where
    f: "pr \<noteq> []" "length pr = characters cfg" "list_all (\<lambda>r. length r = characters cfg) pr"
    "pearson_r_tensor s c = Some ms" "pearson_r_test s c = Some vs"
    "pearson_r_tensor s' = (pearson_r_tensor s)(c \<mapsto> ms @ [pr])"
    "pearson_r_test s' = (pearson_r_test s)(c \<mapsto> vs @ [v])"
    "trace s' = trace s @ [Accumulate c step]"
    by blast
  show ?thesis
    unfolding counted_def
  proof
    fix a assume a: "a \<in> set (test_components cfg)"
    from c a obtain ms0 vs0 where
      o: "pearson_r_tensor s a
            = Some (replicate (characters cfg) (replicate (characters cfg) (Some 0)) # ms0)"
      "pearson_r_test s a = Some (replicate (test_width cfg) (Some 0) # vs0)"
      "length ms0 = length (entry_steps a (trace s))"
      "length vs0 = length (entry_steps a (trace s))"
      "list_all (\<lambda>m. length m = characters cfg \<and> list_all (\<lambda>r. length r = characters cfg) m) ms0"
      unfolding counted_def by blast
    show "\<exists>ms vs.
        pearson_r_tensor s' a
          = Some (replicate (characters cfg) (replicate (characters cfg) (Some 0)) # ms)
      \<and> pearson_r_test s' a = Some (replicate (test_width cfg) (Some 0) # vs)
      \<and> length ms = length (entry_steps a (trace s'))
      \<and> length vs = length (entry_steps a (trace s'))
      \<and> list_all (\<lambda>m. length m = characters cfg \<and> list_all (\<lambda>r. length r = characters cfg) m) ms"
    proof (cases "a = c")
      case True
      with o f show ?thesis
        by (intro exI[of _ "ms0 @ [pr]"] exI[of _ "vs0 @ [v]"]) simp
    next
      case False
      with o f show ?thesis
        by (intro exI[of _ ms0] exI[of _ vs0]) simp
    qed
  qed
qed

lemma counted_probe:
  assumes "counted cfg s" and "probe cfg ev g mp k ep idx step s = Inr s'"
  shows "counted cfg s'"
proof -
  have start: "counted cfg (log_event (Model_call Recall step True) s)"
    using assms(1) by (rule counted_log) simp
  show ?thesis
    by (rule for_each_invariant[where P = "counted cfg", OF assms(2)[unfolded probe_def] start])
       (rule counted_process)
qed

lemma counted_study_step:
  assumes "counted cfg s" and "study_step cfg ev g mp k ep idx step s = Inr s'"
  shows "counted cfg s'"
proof -
  let ?s1 = "log_event (Model_call Study step False) s"
  have start: "counted cfg ?s1"
    using assms(1) by (rule counted_log) simp
  show ?thesis
  proof (cases "int step = early_response_step cfg - 1 \<or> int step = late_response_steps cfg - 1")
    case True
    with assms(2) have "probe cfg ev g mp k ep idx step ?s1 = Inr s'"
      by (simp add: study_step_def Let_def)
    with start show ?thesis by (rule counted_probe)
  next
    case False
    with assms(2) have "s' = ?s1"
      by (simp add: study_step_def Let_def)
    with start show ?thesis by simp
  qed
qed

lemma counted_study:
  assumes "counted cfg s" and "study cfg ev g mp k ep idx s = Inr s'"
  shows "counted cfg s'"
  by (rule for_each_invariant[where P = "counted cfg", OF assms(2)[unfolded study_def] assms(1)])
     (rule counted_study_step)

lemma counted_trial:
  assumes "counted cfg s" and "trial cfg ev g mp k ep idx s = Inr s'"
  shows "counted cfg s'"
proof -
  let ?s1 = "log_event Reset_model (s\<lparr>recall_data_bound := True\<rparr>)"
  from assms(2) obtain s2 where
    st: "study cfg ev g mp k ep idx ?s1 = Inr s2" and cm: "check_metrics cfg s2 = Inr s'"
    by (auto simp: trial_def Let_def split: if_splits sum.splits)
  have "counted cfg ?s1"
    using assms(1) by (rule counted_cong) (simp_all add: log_event_def)
  then have "counted cfg s2" using st by (rule counted_study)
  then show ?thesis
  proof (rule counted_cong)
    fix a
    show "entry_steps a (trace s') = entry_steps a (trace s2)"
      using check_metrics_Inr(1)[OF cm]
      by (simp add: metrics_events_def split: option.splits)
  qed (simp_all add: check_metrics_Inr[OF cm])
qed

lemma counted_epoch:
  assumes "counted cfg s" and "epoch cfg ev k sg rg ep s = Inr s'"
  shows "counted cfg s'"
proof -
  let ?s1 = "log_event (Read_generator k ep (fst rg)) (log_event (Read_generator k ep (fst sg)) s)"
  from assms(2) obtain trials where
    loop: "for_each (\<lambda>idx. trial cfg ev (snd sg)
             (map (pair_image ev k ep) (core_label_sequence (snd sg))) k ep idx) trials ?s1 = Inr s'"
    by (auto simp: epoch_def Let_def split: if_splits)
  have start: "counted cfg ?s1"
    using assms(1) by (intro counted_log) simp_all
  show ?thesis
    by (rule for_each_invariant[where P = "counted cfg", OF loop start]) (rule counted_trial)
qed

lemma counted_seed:
  assumes "counted cfg s" and "seed_run cfg ev k s = Inr s'"
  shows "counted cfg s'"
proof -
  from assms(2) obtain sg rg s3 where
    loop: "for_each (epoch cfg ev k sg rg) [0 ..< nat (train_epochs cfg)] s3 = Inr s'"
    and s3: "trace s3 = (trace s @ [Construct_generator (next_generator s)])
                          @ [Construct_generator (Suc (next_generator s))]"
      "pearson_r_tensor s3 = pearson_r_tensor s" "pearson_r_test s3 = pearson_r_test s"
    by (auto simp: seed_run_def construct_def Let_def log_event_def split: sum.splits if_splits)
  have start: "counted cfg s3"
    using assms(1) by (rule counted_cong) (simp_all add: s3)
  show ?thesis
    by (rule for_each_invariant[where P = "counted cfg", OF loop start]) (rule counted_epoch)
qed

lemma counted_init: "counted cfg (init cfg)"
  by (simp add: counted_def init_def)

lemma counted_run:
  assumes "run cfg ev = Inr s"
  shows "counted cfg s"
  by (rule for_each_invariant[where P = "counted cfg", OF assms[unfolded run_def] counted_init])
     (rule counted_seed)

lemma early_indices: "slice_indices 1 n 2 n = map (\<lambda>k. 2 * k + 1) [0 ..< n div 2]"
proof (induction n)
  case 0
  then show ?case by (simp add: slice_indices_def)
next
  case (Suc n)
  show ?case
  proof (cases "n = 0")
    case True
    then show ?thesis by (simp add: slice_indices_def)
  next
    case False
    then have u: "[1..<Suc n] = [1..<n] @ [n]" by simp
    have step: "slice_indices 1 (Suc n) 2 (Suc n)
                  = slice_indices 1 n 2 n @ (if odd n then [n] else [])"
      using False unfolding slice_indices_def by (simp add: u) presburger
    show ?thesis
    proof (cases "odd n")
      case True
      then have "Suc n div 2 = Suc (n div 2)" "2 * (n div 2) + 1 = n" by presburger+
      with step Suc True show ?thesis by simp
    next
      case False
      then have "Suc n div 2 = n div 2" by presburger
      with step Suc False show ?thesis by simp
    qed
  qed
qed

lemma late_indices: "slice_indices 2 (Suc n) 2 n = map (\<lambda>k. 2 * k + 2) [0 ..< (n - 1) div 2]"
proof (induction n)
  case 0
  then show ?case by (simp add: slice_indices_def)
next
  case (Suc n)
  show ?case
  proof (cases "n < 2")
    case True
    then have "n = 0 \<or> n = 1" by auto
    then show ?thesis by (auto simp: slice_indices_def)
  next
    case False
    then have u: "[2..<Suc n] = [2..<n] @ [n]" by simp
    have m: "min (Suc (Suc n)) (Suc n) = Suc n" "min (Suc n) n = n" by simp_all
    have step: "slice_indices 2 (Suc (Suc n)) 2 (Suc n)
                  = slice_indices 2 (Suc n) 2 n @ (if even n then [n] else [])"
      using False unfolding slice_indices_def m by (simp add: u) presburger
    show ?thesis
    proof (cases "even n")
      case True
      with False have "(Suc n - 1) div 2 = Suc ((n - 1) div 2)" "2 * ((n - 1) div 2) + 2 = n"
        by presburger+
      with step Suc True show ?thesis by simp
    next
      case odd: False
      with False have "(Suc n - 1) div 2 = (n - 1) div 2" by presburger
      with step Suc odd show ?thesis by simp
    qed
  qed
qed

lemma early_slice_nth: "early_slice acc = map (\<lambda>k. acc ! (2 * k + 1)) [0 ..< length acc div 2]"
  unfolding early_slice_def py_slice_def early_indices by (simp add: comp_def)

lemma late_slice_nth:
  "late_slice acc = map (\<lambda>k. acc ! (2 * k + 2)) [0 ..< (length acc - 1) div 2]"
proof -
  have "late_slice acc = py_slice 2 (Suc (length acc)) 2 acc" by (simp add: late_slice_def)
  then show ?thesis unfolding py_slice_def late_indices by (simp add: comp_def)
qed

lemma early_slice_Cons:
  "early_slice (z # xs) = map (\<lambda>k. xs ! (2 * k)) [0 ..< (length xs + 1) div 2]"
  by (simp add: early_slice_nth)

lemma late_slice_Cons:
  "late_slice (z # xs) = map (\<lambda>k. xs ! (2 * k + 1)) [0 ..< length xs div 2]"
  by (simp add: late_slice_nth)


lemma slice_subset:
  "set (early_slice acc) \<subseteq> set acc" "set (late_slice acc) \<subseteq> set acc"
proof -
  have "2 * k + 1 < length acc" if "k < length acc div 2" for k using that by presburger
  then show "set (early_slice acc) \<subseteq> set acc" by (auto simp: early_slice_nth)
  have "2 * k + 2 < length acc" if "k < (length acc - 1) div 2" for k using that by presburger
  then show "set (late_slice acc) \<subseteq> set acc" by (auto simp: late_slice_nth)
qed

lemma pairs_nth:
  "k < n \<Longrightarrow> concat (replicate n [x, y]) ! (2 * k) = x \<and> concat (replicate n [x, y]) ! (2 * k + 1) = y"
proof (induction n arbitrary: k)
  case 0
  then show ?case by simp
next
  case (Suc n)
  show ?case
  proof (cases k)
    case 0
    then show ?thesis by simp
  next
    case (Suc k')
    with Suc.prems have "k' < n" by simp
    from Suc.IH[OF this] Suc show ?thesis by simp
  qed
qed

lemma pairs_nth_Suc:
  "k < n \<Longrightarrow> concat (replicate n [x, y]) ! (2 * k) = x"
  "k < n \<Longrightarrow> concat (replicate n [x, y]) ! Suc (2 * k) = y"
  using pairs_nth[of k n x y] by simp_all

lemma pairs_length: "length (concat (replicate n [x, y])) = 2 * n"
  by (induction n) simp_all

lemma slices_of_pairs:
  "early_slice (z # concat (replicate n [x, y])) = replicate n x"
  "late_slice (z # concat (replicate n [x, y])) = replicate n y"
proof -
  show "early_slice (z # concat (replicate n [x, y])) = replicate n x"
    unfolding early_slice_Cons pairs_length
    by (rule nth_equalityI) (simp_all add: pairs_nth_Suc)
  show "late_slice (z # concat (replicate n [x, y])) = replicate n y"
    unfolding late_slice_Cons pairs_length
    by (rule nth_equalityI) (simp_all add: pairs_nth_Suc)
qed

lemma map_pairs: "map f (concat (replicate n [x, y])) = concat (replicate n [f x, f y])"
  by (induction n) simp_all

lemma torch_mean0_cell:
  assumes "i < n" "j < n"
  shows "torch_mean0 n ms ! i ! j = cell_mean (map (\<lambda>m. m ! i ! j) ms)"
proof (cases "ms = []")
  case True
  with assms show ?thesis by (simp add: torch_mean0_def cell_mean_def cdiv_def)
next
  case False
  then have "cdiv (foldl cadd (Some 0) (map (\<lambda>m. m ! i ! j) ms)) (length (map (\<lambda>m. m ! i ! j) ms))
               = cell_mean (map (\<lambda>m. m ! i ! j) ms)"
    by (intro cdiv_sum_is_cell_mean) simp
  with assms show ?thesis by (simp add: torch_mean0_def)
qed

lemma torch_mean0_symmetric:
  assumes "\<forall>m\<in>set ms. \<forall>i<n. \<forall>j<n. m ! i ! j = m ! j ! i" "i < n" "j < n"
  shows "torch_mean0 n ms ! i ! j = torch_mean0 n ms ! j ! i"
proof -
  have "map (\<lambda>m. m ! i ! j) ms = map (\<lambda>m. m ! j ! i) ms"
    using assms by (intro map_cong) auto
  then have "cell_mean (map (\<lambda>m. m ! i ! j) ms) = cell_mean (map (\<lambda>m. m ! j ! i) ms)"
    by (rule arg_cong)
  then show ?thesis
    unfolding torch_mean0_cell[OF assms(2,3)] torch_mean0_cell[OF assms(3,2)] .
qed

lemma demo_run_trace:
  assumes "run (demo_config comps 1 1 e l m) demo_env = Inr s"
  shows "trace s = [Construct_generator 0, Construct_generator (Suc 0),
                    Read_generator 0 0 0, Read_generator 0 0 (Suc 0)]
                   @ trial_events (demo_config comps 1 1 e l m)
                   @ trial_events (demo_config comps 1 1 e l m)"
proof -
  let ?cfg = "demo_config comps 1 1 e l m"
  from assms have sr: "seed_run ?cfg demo_env 0 (init ?cfg) = Inr s"
    by (simp add: run_def split: sum.splits)
  let ?s3 = "(init ?cfg)\<lparr>next_generator := Suc (Suc 0),
      trace := [Construct_generator 0, Construct_generator (Suc 0)], predictions := []\<rparr>"
  from sr have ep: "epoch ?cfg demo_env 0 (0, demo_generator) (Suc 0, demo_generator) 0 ?s3 = Inr s"
    unfolding demo_seed_unfold by (simp add: init_def split: sum.splits)
  let ?s1 = "log_event (Read_generator 0 0 (Suc 0)) (log_event (Read_generator 0 0 0) ?s3)"
  from ep obtain t1 where
    t1: "trial ?cfg demo_env demo_generator [[0, 1], [1, 0]] 0 0 0 ?s1 = Inr t1"
    and t2: "trial ?cfg demo_env demo_generator [[0, 1], [1, 0]] 0 0 (Suc 0) t1 = Inr s"
    unfolding demo_epoch_unfold by (auto split: sum.splits)
  from trial_Inr(1)[OF t1] trial_Inr(1)[OF t2] show ?thesis
    by (simp add: log_event_def)
qed

lemma demo_run_trials:
  assumes "run (demo_config comps 1 1 e l m) demo_env = Inr s"
  shows "trials_run (trace s) = 2"
  unfolding demo_run_trace[OF assms] by (simp add: trial_events_projections)


lemma tensor_probe:
  assumes step: "\<And>t t' g ro mp step c. P (pearson_r_tensor t)
            \<Longrightarrow> process_component cfg g ro mp step c t = Inr t' \<Longrightarrow> P (pearson_r_tensor t')"
    and "P (pearson_r_tensor s)" and "probe cfg ev g mp k ep idx st s = Inr s'"
  shows "P (pearson_r_tensor s')"
proof -
  have start: "P (pearson_r_tensor (log_event (Model_call Recall st True) s))"
    using assms(2) by (simp add: log_event_def)
  show ?thesis
    by (rule for_each_invariant[where P = "\<lambda>t. P (pearson_r_tensor t)",
          OF assms(3)[unfolded probe_def] start])
       (rule step)
qed

lemma tensor_study_step:
  assumes step: "\<And>t t' g ro mp step c. P (pearson_r_tensor t)
            \<Longrightarrow> process_component cfg g ro mp step c t = Inr t' \<Longrightarrow> P (pearson_r_tensor t')"
    and "P (pearson_r_tensor s)" and "study_step cfg ev g mp k ep idx st s = Inr s'"
  shows "P (pearson_r_tensor s')"
proof -
  let ?s1 = "log_event (Model_call Study st False) s"
  have start: "P (pearson_r_tensor ?s1)" using assms(2) by (simp add: log_event_def)
  show ?thesis
  proof (cases "int st = early_response_step cfg - 1 \<or> int st = late_response_steps cfg - 1")
    case True
    with assms(3) have "probe cfg ev g mp k ep idx st ?s1 = Inr s'"
      by (simp add: study_step_def Let_def)
    with step start show ?thesis by (rule tensor_probe)
  next
    case False
    with assms(3) have "s' = ?s1" by (simp add: study_step_def Let_def)
    with start show ?thesis by simp
  qed
qed

lemma tensor_trial:
  assumes step: "\<And>t t' g ro mp step c. P (pearson_r_tensor t)
            \<Longrightarrow> process_component cfg g ro mp step c t = Inr t' \<Longrightarrow> P (pearson_r_tensor t')"
    and "P (pearson_r_tensor s)" and "trial cfg ev g mp k ep idx s = Inr s'"
  shows "P (pearson_r_tensor s')"
proof -
  let ?s1 = "log_event Reset_model (s\<lparr>recall_data_bound := True\<rparr>)"
  from assms(3) obtain s2 where
    st: "study cfg ev g mp k ep idx ?s1 = Inr s2" and cm: "check_metrics cfg s2 = Inr s'"
    by (auto simp: trial_def Let_def split: if_splits sum.splits)
  have start: "P (pearson_r_tensor ?s1)" using assms(2) by (simp add: log_event_def)
  have "P (pearson_r_tensor s2)"
  proof (rule for_each_invariant[where P = "\<lambda>t. P (pearson_r_tensor t)",
          OF st[unfolded study_def] start])
    fix x t t'
    assume "P (pearson_r_tensor t)"
      and "study_step cfg ev g mp k ep idx x t = Inr t'"
    with step show "P (pearson_r_tensor t')" by (rule tensor_study_step)
  qed
  with check_metrics_Inr(3)[OF cm] show ?thesis by simp
qed

lemma tensor_epoch:
  assumes step: "\<And>t t' g ro mp step c. P (pearson_r_tensor t)
            \<Longrightarrow> process_component cfg g ro mp step c t = Inr t' \<Longrightarrow> P (pearson_r_tensor t')"
    and "P (pearson_r_tensor s)" and "epoch cfg ev k sg rg ep s = Inr s'"
  shows "P (pearson_r_tensor s')"
proof -
  let ?s1 = "log_event (Read_generator k ep (fst rg)) (log_event (Read_generator k ep (fst sg)) s)"
  from assms(3) obtain trials where
    loop: "for_each (\<lambda>idx. trial cfg ev (snd sg)
             (map (pair_image ev k ep) (core_label_sequence (snd sg))) k ep idx) trials ?s1 = Inr s'"
    by (auto simp: epoch_def Let_def split: if_splits)
  have start: "P (pearson_r_tensor ?s1)" using assms(2) by (simp add: log_event_def)
  show ?thesis
  proof (rule for_each_invariant[where P = "\<lambda>t. P (pearson_r_tensor t)", OF loop start])
    fix x t t'
    assume "P (pearson_r_tensor t)"
      and "trial cfg ev (snd sg) (map (pair_image ev k ep) (core_label_sequence (snd sg)))
             k ep x t = Inr t'"
    with step show "P (pearson_r_tensor t')" by (rule tensor_trial)
  qed
qed

lemma tensor_seed:
  assumes step: "\<And>t t' g ro mp step c. P (pearson_r_tensor t)
            \<Longrightarrow> process_component cfg g ro mp step c t = Inr t' \<Longrightarrow> P (pearson_r_tensor t')"
    and "P (pearson_r_tensor s)" and "seed_run cfg ev k s = Inr s'"
  shows "P (pearson_r_tensor s')"
proof -
  from assms(3) obtain sg rg s3 where
    loop: "for_each (epoch cfg ev k sg rg) [0 ..< nat (train_epochs cfg)] s3 = Inr s'"
    and s3: "pearson_r_tensor s3 = pearson_r_tensor s"
    by (auto simp: seed_run_def construct_def Let_def log_event_def split: sum.splits if_splits)
  have start: "P (pearson_r_tensor s3)" using assms(2) by (simp add: s3)
  show ?thesis
  proof (rule for_each_invariant[where P = "\<lambda>t. P (pearson_r_tensor t)", OF loop start])
    fix x t t'
    assume "P (pearson_r_tensor t)" and "epoch cfg ev k sg rg x t = Inr t'"
    with step show "P (pearson_r_tensor t')" by (rule tensor_epoch)
  qed
qed

lemma run_tensor_invariant:
  assumes "run cfg ev = Inr s" and start: "P (pearson_r_tensor (init cfg))"
    and step: "\<And>t t' g ro mp step c. P (pearson_r_tensor t)
            \<Longrightarrow> process_component cfg g ro mp step c t = Inr t' \<Longrightarrow> P (pearson_r_tensor t')"
  shows "P (pearson_r_tensor s)"
proof (rule for_each_invariant[where P = "\<lambda>t. P (pearson_r_tensor t)",
          OF assms(1)[unfolded run_def] start])
  fix x t t'
  assume "P (pearson_r_tensor t)" and "seed_run cfg ev x t = Inr t'"
  with step show "P (pearson_r_tensor t')" by (rule tensor_seed)
qed

lemma correlate_symmetric:
  assumes "correlate n flat = Inr m" "i < length m" "j < length m"
  shows "m ! i ! j = m ! j ! i"
proof -
  from assms(1) have m: "pearson_rows (take n flat) = Inr m" by (simp add: correlate_def)
  note cells = pearson_rows_cells[OF m]
  from assms(2,3) cells(1) have i: "i < length (take n flat)" and j: "j < length (take n flat)"
    by simp_all
  have "Inr (m ! i ! j) = pearsonr (take n flat ! j) (take n flat ! i)"
    using cells(3)[OF i j] by simp
  also have "\<dots> = pearsonr (take n flat ! i) (take n flat ! j)" by (rule pearsonr_commute)
  also have "\<dots> = Inr (m ! j ! i)" using cells(3)[OF j i] .
  finally show ?thesis by simp
qed

lemma run_entries_symmetric:
  assumes "run cfg ev = Inr s" and "pearson_r_tensor s a = Some acc"
  shows "\<forall>m \<in> set acc. \<forall>i < characters cfg. \<forall>j < characters cfg. m ! i ! j = m ! j ! i"
proof -
  let ?P = "\<lambda>tensor. \<forall>a acc. tensor a = Some acc
              \<longrightarrow> (\<forall>m \<in> set acc. \<forall>i < characters cfg. \<forall>j < characters cfg. m ! i ! j = m ! j ! i)"
  have "?P (pearson_r_tensor s)"
    using assms(1)
  proof (rule run_tensor_invariant)
    show "?P (pearson_r_tensor (init cfg))" by (auto simp: init_def split: if_splits)
  next
    fix t t' g ro mp step c
    assume p: "?P (pearson_r_tensor t)" and r: "process_component cfg g ro mp step c t = Inr t'"
    from process_component_Inr[OF r] obtain flat pr ms where
      f: "correlate (characters cfg) flat = Inr pr" "length pr = characters cfg"
      "pearson_r_tensor t c = Some ms"
      "pearson_r_tensor t' = (pearson_r_tensor t)(c \<mapsto> ms @ [pr])"
      by blast
    have pr: "\<forall>i < characters cfg. \<forall>j < characters cfg. pr ! i ! j = pr ! j ! i"
      using correlate_symmetric[OF f(1)] f(2) by simp
    show "?P (pearson_r_tensor t')"
    proof (intro allI impI)
      fix b acc assume b: "pearson_r_tensor t' b = Some acc"
      show "\<forall>m \<in> set acc. \<forall>i < characters cfg. \<forall>j < characters cfg. m ! i ! j = m ! j ! i"
      proof (cases "b = c")
        case True
        with b f have "acc = ms @ [pr]" by simp
        with p f(3) pr show ?thesis by auto
      next
        case False
        with b f have "pearson_r_tensor t b = Some acc" by simp
        with p show ?thesis by blast
      qed
    qed
  qed
  with assms(2) show ?thesis by blast
qed

text \<open>With the early step outside 1 .. late - 1 a trial appends one entry per component,
  at the final step.\<close>

lemma trial_events_entry_steps_one:
  assumes "1 \<le> late_response_steps cfg"
    and "early_response_step cfg < 1 \<or> late_response_steps cfg \<le> early_response_step cfg"
    and "distinct (test_components cfg)" "a \<in> set (test_components cfg)"
  shows "entry_steps a (trial_events cfg) = [nat (late_response_steps cfg - 1)]"
proof -
  from assms(3,4) have "count_list (test_components cfg) a = 1"
    by (rule count_list_distinct)
  then show ?thesis
    by (simp add: trial_events_def study_events_def steps_projections
        probe_steps_one[OF assms(1,2)] metrics_events_def split: option.splits)
qed

text \<open>The constructor calls and the generator reads of a run that completes.\<close>

lemma for_each_append_Inr:
  "for_each body (xs @ ys) s = Inr s'
     \<longleftrightarrow> (\<exists>t. for_each body xs s = Inr t \<and> for_each body ys t = Inr s')"
  by (induction xs arbitrary: s) (auto split: sum.splits)

lemma for_each_upt_invariant:
  assumes "for_each body [0 ..< n] s = Inr s'" and "P 0 s"
    and "\<And>i t t'. i < n \<Longrightarrow> P i t \<Longrightarrow> body i t = Inr t' \<Longrightarrow> P (Suc i) t'"
  shows "P n s'"
  using assms
proof (induction n arbitrary: s')
  case 0
  then show ?case by simp
next
  case (Suc n)
  have "[0 ..< Suc n] = [0 ..< n] @ [n]" by simp
  with Suc.prems(1) have "for_each body ([0 ..< n] @ [n]) s = Inr s'" by simp
  then obtain t where t: "for_each body [0 ..< n] s = Inr t"
    and b1: "for_each body [n] t = Inr s'"
    unfolding for_each_append_Inr by blast
  from b1 have b: "body n t = Inr s'" by (simp split: sum.splits)
  have "P n t" using t Suc.prems(2)
  proof (rule Suc.IH)
    fix i u u'
    assume "i < n" "P i u" "body i u = Inr u'"
    then show "P (Suc i) u'" using Suc.prems(3)[of i u u'] by simp
  qed
  with b show ?case using Suc.prems(3)[of n t s'] by simp
qed

lemma epoch_generators:
  assumes "epoch cfg ev k sg rg ep s = Inr s'"
  shows "next_generator s' = next_generator s"
    and "constructions (trace s') = constructions (trace s)"
    and "generator_reads (trace s') = generator_reads (trace s) @ [(k, ep, fst sg), (k, ep, fst rg)]"
proof -
  let ?s1 = "log_event (Read_generator k ep (fst rg)) (log_event (Read_generator k ep (fst sg)) s)"
  from assms obtain trials where
    loop: "for_each (\<lambda>idx. trial cfg ev (snd sg)
             (map (pair_image ev k ep) (core_label_sequence (snd sg))) k ep idx) trials ?s1 = Inr s'"
    by (auto simp: epoch_def Let_def split: if_splits)
  let ?P = "\<lambda>t. next_generator t = next_generator ?s1
                \<and> constructions (trace t) = constructions (trace ?s1)
                \<and> generator_reads (trace t) = generator_reads (trace ?s1)"
  have "?P s'"
  proof (rule for_each_invariant[where P = ?P, OF loop])
    show "?P ?s1" by simp
  next
    fix x t t'
    assume p: "?P t"
      and t: "trial cfg ev (snd sg) (map (pair_image ev k ep) (core_label_sequence (snd sg)))
                k ep x t = Inr t'"
    from trial_Inr[OF t] p show "?P t'" by (simp add: trial_events_projections)
  qed
  then show "next_generator s' = next_generator s"
    and "constructions (trace s') = constructions (trace s)"
    and "generator_reads (trace s') = generator_reads (trace s) @ [(k, ep, fst sg), (k, ep, fst rg)]"
    by (simp_all add: log_event_def)
qed

lemma seed_generators:
  assumes "seed_run cfg ev k s = Inr s'"
  shows "next_generator s' = Suc (Suc (next_generator s))"
    and "constructions (trace s')
           = constructions (trace s) @ [next_generator s, Suc (next_generator s)]"
    and "generator_reads (trace s')
           = generator_reads (trace s)
             @ concat (map (\<lambda>ep. [(k, ep, next_generator s), (k, ep, Suc (next_generator s))])
                 [0 ..< nat (train_epochs cfg)])"
proof -
  let ?i = "next_generator s"
  from assms obtain gs gr s3 where
    loop: "for_each (epoch cfg ev k (?i, gs) (Suc ?i, gr)) [0 ..< nat (train_epochs cfg)] s3 = Inr s'"
    and s3: "trace s3 = trace s @ [Construct_generator ?i, Construct_generator (Suc ?i)]"
      "next_generator s3 = Suc (Suc ?i)"
    by (auto simp: seed_run_def construct_def Let_def log_event_def split: sum.splits if_splits)
  let ?P = "\<lambda>n t. next_generator t = Suc (Suc ?i)
                \<and> constructions (trace t) = constructions (trace s) @ [?i, Suc ?i]
                \<and> generator_reads (trace t)
                    = generator_reads (trace s)
                      @ concat (map (\<lambda>ep. [(k, ep, ?i), (k, ep, Suc ?i)]) [0 ..< n])"
  have "?P (nat (train_epochs cfg)) s'"
  proof (rule for_each_upt_invariant[where P = ?P, OF loop])
    show "?P 0 s3" by (simp add: s3)
  next
    fix n t t'
    assume p: "?P n t" and e: "epoch cfg ev k (?i, gs) (Suc ?i, gr) n t = Inr t'"
    from epoch_generators[OF e] p show "?P (Suc n) t'" by simp
  qed
  then show "next_generator s' = Suc (Suc (next_generator s))"
    and "constructions (trace s')
           = constructions (trace s) @ [next_generator s, Suc (next_generator s)]"
    and "generator_reads (trace s')
           = generator_reads (trace s)
             @ concat (map (\<lambda>ep. [(k, ep, next_generator s), (k, ep, Suc (next_generator s))])
                 [0 ..< nat (train_epochs cfg)])"
    by simp_all
qed

lemma upt_two_more: "[0 ..< 2 * n] @ [2 * n, Suc (2 * n)] = [0 ..< 2 * Suc n]"
  by simp

lemma run_generators:
  assumes "run cfg ev = Inr s"
  shows "constructions (trace s) = [0 ..< 2 * nat (seeds cfg)]"
    and "generator_reads (trace s)
           = concat (map (\<lambda>k. concat (map (\<lambda>ep. [(k, ep, 2 * k), (k, ep, 2 * k + 1)])
                                    [0 ..< nat (train_epochs cfg)]))
               [0 ..< nat (seeds cfg)])"
proof -
  let ?P = "\<lambda>n t. next_generator t = 2 * n
                \<and> constructions (trace t) = [0 ..< 2 * n]
                \<and> generator_reads (trace t)
                    = concat (map (\<lambda>k. concat (map (\<lambda>ep. [(k, ep, 2 * k), (k, ep, 2 * k + 1)])
                                             [0 ..< nat (train_epochs cfg)]))
                        [0 ..< n])"
  have "?P (nat (seeds cfg)) s"
  proof (rule for_each_upt_invariant[where P = ?P, OF assms[unfolded run_def]])
    show "?P 0 (init cfg)" by (simp add: init_def)
  next
    fix n t t'
    assume p: "?P n t" and e: "seed_run cfg ev n t = Inr t'"
    from p have pn: "next_generator t = 2 * n" by simp
    have 1: "next_generator t' = 2 * Suc n"
      using seed_generators(1)[OF e] pn by simp
    have "constructions (trace t') = [0 ..< 2 * n] @ [2 * n, Suc (2 * n)]"
      using seed_generators(2)[OF e] p by simp
    then have 2: "constructions (trace t') = [0 ..< 2 * Suc n]"
      unfolding upt_two_more .
    have 3: "generator_reads (trace t')
               = concat (map (\<lambda>k. concat (map (\<lambda>ep. [(k, ep, 2 * k), (k, ep, 2 * k + 1)])
                                        [0 ..< nat (train_epochs cfg)]))
                   [0 ..< Suc n])"
      using seed_generators(3)[OF e] p by simp
    from 1 2 3 show "?P (Suc n) t'" by blast
  qed
  then show "constructions (trace s) = [0 ..< 2 * nat (seeds cfg)]"
    and "generator_reads (trace s)
           = concat (map (\<lambda>k. concat (map (\<lambda>ep. [(k, ep, 2 * k), (k, ep, 2 * k + 1)])
                                    [0 ..< nat (train_epochs cfg)]))
               [0 ..< nat (seeds cfg)])"
    by simp_all
qed

section \<open>C1: as many early and late entries as trials\<close>



section \<open>C2: the probes of a study loop\<close>

text \<open>
  Claim C2, amended. For every trial whose study loop completes, when the early response
  step is at least 1 and strictly less than the number of late response steps, the loop
  issues exactly two recall probes, the first at step index \<open>early_response_step - 1\<close>
  and the second at the final step index \<open>late_response_steps - 1\<close>, each inside
  \<^verbatim>\<open>torch.no_grad()\<close>. The probes carry no label of their own; the early or late
  reading of an entry is decided later, by its position in the accumulator. The bound
  \<open>1 \<le> early_response_step\<close> is needed: step index \<open>- 1\<close> never occurs in the loop.
\<close>

theorem study_loop_probes_twice:
  assumes "1 \<le> early_response_step cfg"
    and "early_response_step cfg < late_response_steps cfg"
    and "study cfg ev g main_pairs_flat k ep idx s = Inr s'"
  shows "\<exists>new. trace s' = trace s @ new
           \<and> probe_calls new = [(nat (early_response_step cfg - 1), True),
                                (nat (late_response_steps cfg - 1), True)]"
proof -
  have "probe_calls (study_events cfg)
          = [(nat (early_response_step cfg - 1), True), (nat (late_response_steps cfg - 1), True)]"
    unfolding study_events_def probe_calls_steps probe_steps_two[OF assms(1,2)] by simp
  with study_Inr(1)[OF assms(3)] show ?thesis by blast
qed

text \<open>The theorem at the first trial of the small experiment, with steps 1 and 2.\<close>

theorem study_loop_probes_twice_witness:
  "\<exists>s'. study (demo_config [''dg''] 1 1 1 2 None) demo_env demo_generator [[0, 1], [1, 0]] 0 0 0
           (init (demo_config [''dg''] 1 1 1 2 None)) = Inr s'
      \<and> (\<exists>new. trace s' = trace (init (demo_config [''dg''] 1 1 1 2 None)) @ new
            \<and> probe_calls new
                = [(nat (early_response_step (demo_config [''dg''] 1 1 1 2 None) - 1), True),
                   (nat (late_response_steps (demo_config [''dg''] 1 1 1 2 None) - 1), True)])"
proof -
  have "has_accumulators [''dg''] (init (demo_config [''dg''] 1 1 1 2 None))"
    using init_has_accumulators[of "demo_config [''dg''] 1 1 1 2 None"] by simp
  from demo_study_ok[OF _ this, of 1 1 1 2 None 0 0 0] obtain s' where r:
    "study (demo_config [''dg''] 1 1 1 2 None) demo_env demo_generator [[0, 1], [1, 0]] 0 0 0
       (init (demo_config [''dg''] 1 1 1 2 None)) = Inr s'"
    by auto
  have e: "1 \<le> early_response_step (demo_config [''dg''] 1 1 1 2 None)"
    "early_response_step (demo_config [''dg''] 1 1 1 2 None)
       < late_response_steps (demo_config [''dg''] 1 1 1 2 None)"
    by simp_all
  from r study_loop_probes_twice[OF e r] show ?thesis
    by (intro exI[of _ s'] conjI)
qed

text \<open>
  Claim C2 as stated fails for an early response step of 0 with two late response steps:
  0 is strictly less than 2, yet the study loop of the small experiment issues a single
  probe, at step index 1.
\<close>

theorem study_loop_single_probe_counterexample:
  "early_response_step (demo_config [''dg''] 1 1 0 2 None)
     < late_response_steps (demo_config [''dg''] 1 1 0 2 None)
   \<and> (\<exists>s'. study (demo_config [''dg''] 1 1 0 2 None) demo_env demo_generator [[0, 1], [1, 0]] 0 0 0
              (init (demo_config [''dg''] 1 1 0 2 None)) = Inr s'
         \<and> probe_calls (trace s') = [(1, True)])"
proof -
  have "has_accumulators [''dg''] (init (demo_config [''dg''] 1 1 0 2 None))"
    using init_has_accumulators[of "demo_config [''dg''] 1 1 0 2 None"] by simp
  from demo_study_ok[OF _ this, of 1 1 0 2 None 0 0 0] obtain s' where r:
    "study (demo_config [''dg''] 1 1 0 2 None) demo_env demo_generator [[0, 1], [1, 0]] 0 0 0
       (init (demo_config [''dg''] 1 1 0 2 None)) = Inr s'"
    by auto
  have "probe_calls (study_events (demo_config [''dg''] 1 1 0 2 None)) = [(1, True)]"
    using probe_calls_study_events_one[of "demo_config [''dg''] 1 1 0 2 None"] by simp
  with study_Inr(1)[OF r] have "probe_calls (trace s') = [(1, True)]"
    by (simp add: init_def)
  with r show ?thesis by auto
qed

section \<open>C3: the contrast vector of a probe\<close>



section \<open>C4: the correlation matrix of a probe\<close>

text \<open>
  Claim C4. For every probe, the correlation matrix is computed from the first
  \<open>characters\<close> rows of the flattened component output only (any other batch with the
  same first rows gives the same matrix). When each of these rows is non-constant, the
  computation succeeds and the matrix is square, with as many rows as were kept
  (\<open>characters\<close> of them once the batch holds that many), symmetric, and has \<open>1\<close> in every
  diagonal cell. The rows of a flattened tensor all have one length \<open>d\<close>. Cells are
  exact reals here, so "within floating tolerance" reads as equality.
\<close>

theorem correlation_matrix_symmetric_unit_diagonal:
  assumes rect: "\<forall>r\<in>set flat. length r = d"
    and nc: "\<forall>r\<in>set (take n flat). \<not> is_constant r"
  shows "\<exists>pearson_r.
           correlate n flat = Inr pearson_r
         \<and> (\<forall>flat'. take n flat' = take n flat
                \<longrightarrow> correlate n flat' = Inr pearson_r)
         \<and> length pearson_r = min n (length flat)
         \<and> (n \<le> length flat \<longrightarrow> length pearson_r = n)
         \<and> (\<forall>i < length pearson_r. length (pearson_r ! i) = length pearson_r)
         \<and> (\<forall>i < length pearson_r. \<forall>j < length pearson_r. pearson_r ! i ! j = pearson_r ! j ! i)
         \<and> (\<forall>i < length pearson_r. pearson_r ! i ! i = Some 1)"
proof -
  define xs where "xs = take n flat"
  have r1: "\<forall>r\<in>set xs. length r = d"
    using rect unfolding xs_def by (auto dest: in_set_takeD)
  have r2: "\<forall>r\<in>set xs. 2 \<le> length r"
    using nc unfolding xs_def by (auto intro: not_constant_length)
  from pearson_rows_total[OF r1 r2] obtain m where m: "pearson_rows xs = Inr m" by auto
  note cells = pearson_rows_cells[OF m]
  have len: "length m = min n (length flat)"
    using cells(1) by (simp add: xs_def min.commute)
  have sym: "m ! i ! j = m ! j ! i" if "i < length m" "j < length m" for i j
  proof -
    from that cells(1) have i: "i < length xs" and j: "j < length xs" by simp_all
    have "Inr (m ! i ! j) = pearsonr (xs ! j) (xs ! i)" using cells(3)[OF i j] by simp
    also have "\<dots> = pearsonr (xs ! i) (xs ! j)" by (rule pearsonr_commute)
    also have "\<dots> = Inr (m ! j ! i)" using cells(3)[OF j i] .
    finally show ?thesis by simp
  qed
  have diag: "m ! i ! i = Some 1" if "i < length m" for i
  proof -
    from that cells(1) have i: "i < length xs" by simp
    then have "xs ! i \<in> set xs" by simp
    with nc[folded xs_def] have "\<not> is_constant (xs ! i)" by blast
    from pearsonr_self[OF this] cells(3)[OF i i] show ?thesis by simp
  qed
  have "correlate n flat = Inr m" using m by (simp add: correlate_def xs_def)
  moreover have "\<forall>flat'. take n flat' = take n flat
                \<longrightarrow> correlate n flat' = Inr m"
    using m by (simp add: correlate_def xs_def)
  moreover have "\<forall>i < length m. length (m ! i) = length m"
    using cells(1,2) by simp
  ultimately show ?thesis using len sym diag by (intro exI[of _ m]) auto
qed

text \<open>
  The theorem at a batch of three rows of which the first two are kept: the third row is
  constant and does not matter.
\<close>

theorem correlation_matrix_witness:
  "\<exists>pearson_r. correlate 2 [[0, 1], [1, 0], [5, 5]] = Inr pearson_r
      \<and> length pearson_r = 2 \<and> length (pearson_r ! 0) = 2 \<and> length (pearson_r ! 1) = 2
      \<and> pearson_r ! 0 ! 1 = pearson_r ! 1 ! 0
      \<and> pearson_r ! 0 ! 0 = Some 1 \<and> pearson_r ! 1 ! 1 = Some 1"
proof -
  have rect: "\<forall>r\<in>set [[0, 1], [1, 0], [5, 5 :: real]]. length r = 2" by simp
  have nc: "\<forall>r\<in>set (take 2 [[0, 1], [1, 0], [5, 5 :: real]]). \<not> is_constant r"
    by (simp add: is_constant_def)
  from correlation_matrix_symmetric_unit_diagonal[OF rect nc]
  obtain m where m: "correlate 2 [[0, 1], [1, 0], [5, 5]] = Inr m" "length m = 2"
    "\<forall>i < length m. length (m ! i) = length m"
    "\<forall>i < length m. \<forall>j < length m. m ! i ! j = m ! j ! i"
    "\<forall>i < length m. m ! i ! i = Some 1"
    by auto
  from m(2,3) have "length (m ! 0) = 2" "length (m ! 1) = 2" by auto
  moreover from m(2,4) have "m ! 0 ! 1 = m ! 1 ! 0" by auto
  moreover from m(2,5) have "m ! 0 ! 0 = Some 1" "m ! 1 ! 1 = Some 1" by auto
  ultimately show ?thesis using m(1,2) by (intro exI[of _ m]) simp
qed

section \<open>C5: the aggregated matrices\<close>

text \<open>
  Claim C5, as the program has it. When \<^verbatim>\<open>main\<close> completes with the early response
  step from 1 and below the late one and no component listed twice, then for every tracked
  component the aggregated early matrix is the mean, cell by cell, over the early slice of
  the component's matrix accumulator and the aggregated late matrix is the mean over the
  late slice. The early slice consists of the entries at the odd indices and the late slice
  of those at the even indices from 2 on, so no entry contributes to both. The accumulator
  holds the placeholder followed by one entry per appended probe result; every trial
  appended an early and then a late entry, so the entries of the early slice are exactly
  those appended at step \<^verbatim>\<open>early_response_step - 1\<close> and those of the late slice exactly
  those appended at step \<^verbatim>\<open>late_response_steps - 1\<close>, one of each per trial. Each
  aggregated matrix is symmetric whenever every accumulated entry is.
\<close>

theorem aggregated_matrices_are_means_of_slices:
  assumes "main cfg ev = Inr sm" and "a \<in> set (test_components cfg)"
    and "1 \<le> early_response_step cfg" and "early_response_step cfg < late_response_steps cfg"
    and "distinct (test_components cfg)"
  shows "\<exists>s acc.
           run cfg ev = Inr s \<and> pearson_r_tensor s a = Some acc
         \<and> pearson_r_early sm a = Some (torch_mean0 (characters cfg) (early_slice acc))
         \<and> pearson_r_late sm a = Some (torch_mean0 (characters cfg) (late_slice acc))
         \<and> early_slice acc = map (\<lambda>k. acc ! (2 * k + 1)) [0 ..< length acc div 2]
         \<and> late_slice acc = map (\<lambda>k. acc ! (2 * k + 2)) [0 ..< (length acc - 1) div 2]
         \<and> length acc = Suc (length (entry_steps a (trace s)))
         \<and> entry_steps a (trace s)
             = concat (replicate (trials_run (trace s))
                 [nat (early_response_step cfg - 1), nat (late_response_steps cfg - 1)])
         \<and> early_slice (None # map Some (entry_steps a (trace s)))
             = replicate (trials_run (trace s)) (Some (nat (early_response_step cfg - 1)))
         \<and> late_slice (None # map Some (entry_steps a (trace s)))
             = replicate (trials_run (trace s)) (Some (nat (late_response_steps cfg - 1)))
         \<and> (\<forall>i < characters cfg. \<forall>j < characters cfg.
               torch_mean0 (characters cfg) (early_slice acc) ! i ! j
                 = cell_mean (map (\<lambda>m. m ! i ! j) (early_slice acc))
             \<and> torch_mean0 (characters cfg) (late_slice acc) ! i ! j
                 = cell_mean (map (\<lambda>m. m ! i ! j) (late_slice acc)))
         \<and> ((\<forall>m \<in> set acc. \<forall>i < characters cfg. \<forall>j < characters cfg. m ! i ! j = m ! j ! i)
              \<longrightarrow> (\<forall>i < characters cfg. \<forall>j < characters cfg.
                     torch_mean0 (characters cfg) (early_slice acc) ! i ! j
                       = torch_mean0 (characters cfg) (early_slice acc) ! j ! i
                   \<and> torch_mean0 (characters cfg) (late_slice acc) ! i ! j
                       = torch_mean0 (characters cfg) (late_slice acc) ! j ! i))"
proof -
  from assms(1) obtain s where r: "run cfg ev = Inr s" and sm: "sm = aggregate cfg s"
    by (auto simp: main_def split: sum.splits)
  from counted_run[OF r] assms(2) obtain acc where acc: "pearson_r_tensor s a = Some acc"
    and len: "length acc = Suc (length (entry_steps a (trace s)))"
    unfolding counted_def by fastforce
  let ?n = "characters cfg"
  have agg: "pearson_r_early sm a = Some (torch_mean0 ?n (early_slice acc))"
    "pearson_r_late sm a = Some (torch_mean0 ?n (late_slice acc))"
    using acc by (simp_all add: sm aggregate_def)
  have cells: "\<forall>i < ?n. \<forall>j < ?n.
               torch_mean0 ?n (early_slice acc) ! i ! j
                 = cell_mean (map (\<lambda>m. m ! i ! j) (early_slice acc))
             \<and> torch_mean0 ?n (late_slice acc) ! i ! j
                 = cell_mean (map (\<lambda>m. m ! i ! j) (late_slice acc))"
    by (simp add: torch_mean0_cell)
  have sym: "(\<forall>m \<in> set acc. \<forall>i < ?n. \<forall>j < ?n. m ! i ! j = m ! j ! i)
              \<longrightarrow> (\<forall>i < ?n. \<forall>j < ?n.
                     torch_mean0 ?n (early_slice acc) ! i ! j
                       = torch_mean0 ?n (early_slice acc) ! j ! i
                   \<and> torch_mean0 ?n (late_slice acc) ! i ! j
                       = torch_mean0 ?n (late_slice acc) ! j ! i)"
  proof (intro impI allI conjI)
    fix i j
    assume all: "\<forall>m \<in> set acc. \<forall>i < ?n. \<forall>j < ?n. m ! i ! j = m ! j ! i"
      and ij: "i < ?n" "j < ?n"
    from all slice_subset[of acc]
    have e: "\<forall>m \<in> set (early_slice acc). \<forall>i < ?n. \<forall>j < ?n. m ! i ! j = m ! j ! i"
      and l: "\<forall>m \<in> set (late_slice acc). \<forall>i < ?n. \<forall>j < ?n. m ! i ! j = m ! j ! i"
      by blast+
    show "torch_mean0 ?n (early_slice acc) ! i ! j = torch_mean0 ?n (early_slice acc) ! j ! i"
      by (rule torch_mean0_symmetric[OF e ij])
    show "torch_mean0 ?n (late_slice acc) ! i ! j = torch_mean0 ?n (late_slice acc) ! j ! i"
      by (rule torch_mean0_symmetric[OF l ij])
  qed
  note steps = run_entry_steps[OF r assms(3,4,5,2)]
  have tags: "early_slice (None # map Some (entry_steps a (trace s)))
                    = replicate (trials_run (trace s)) (Some (nat (early_response_step cfg - 1)))"
    "late_slice (None # map Some (entry_steps a (trace s)))
                    = replicate (trials_run (trace s)) (Some (nat (late_response_steps cfg - 1)))"
    unfolding steps map_pairs by (rule slices_of_pairs)+
  from r acc agg early_slice_nth[of acc] late_slice_nth[of acc] len steps tags cells sym
  show ?thesis by (intro exI[of _ s] exI[of _ acc] conjI)
qed

text \<open>The theorem at the small experiment with two components and steps 1 and 2: two
  trials, the early slice holding the two early entries.\<close>

theorem aggregated_matrices_witness:
  "\<exists>sm s acc.
       main (demo_config [''dg'', ''recon_pair''] 1 1 1 2 None) demo_env = Inr sm
     \<and> run (demo_config [''dg'', ''recon_pair''] 1 1 1 2 None) demo_env = Inr s
     \<and> trials_run (trace s) = 2
     \<and> pearson_r_tensor s ''dg'' = Some acc
     \<and> pearson_r_early sm ''dg''
         = Some (torch_mean0 (characters (demo_config [''dg'', ''recon_pair''] 1 1 1 2 None))
                  (early_slice acc))
     \<and> pearson_r_late sm ''dg''
         = Some (torch_mean0 (characters (demo_config [''dg'', ''recon_pair''] 1 1 1 2 None))
                  (late_slice acc))
     \<and> length acc = Suc (length (entry_steps ''dg'' (trace s)))
     \<and> torch_mean0 (characters (demo_config [''dg'', ''recon_pair''] 1 1 1 2 None))
           (early_slice acc) ! 0 ! 1
         = cell_mean (map (\<lambda>m. m ! 0 ! 1) (early_slice acc))
     \<and> torch_mean0 (characters (demo_config [''dg'', ''recon_pair''] 1 1 1 2 None))
           (early_slice acc) ! 0 ! 1
         = torch_mean0 (characters (demo_config [''dg'', ''recon_pair''] 1 1 1 2 None))
             (early_slice acc) ! 1 ! 0
     \<and> early_slice (None # map Some (entry_steps ''dg'' (trace s)))
         = replicate (trials_run (trace s))
             (Some (nat (early_response_step (demo_config [''dg'', ''recon_pair''] 1 1 1 2 None) - 1)))
     \<and> late_slice (None # map Some (entry_steps ''dg'' (trace s)))
         = replicate (trials_run (trace s))
             (Some (nat (late_response_steps (demo_config [''dg'', ''recon_pair''] 1 1 1 2 None) - 1)))"
proof -
  let ?cfg = "demo_config [''dg'', ''recon_pair''] 1 1 1 2 None"
  obtain s where r: "run ?cfg demo_env = Inr s"
    using demo_run_ok[of "[''dg'', ''recon_pair'']" 1 1 1 2] by auto
  then have m: "main ?cfg demo_env = Inr (aggregate ?cfg s)" by (simp add: main_def)
  have h: "''dg'' \<in> set (test_components ?cfg)" "1 \<le> early_response_step ?cfg"
    "early_response_step ?cfg < late_response_steps ?cfg" "distinct (test_components ?cfg)"
    by simp_all
  from aggregated_matrices_are_means_of_slices[OF m h] r obtain acc where
    a: "pearson_r_tensor s ''dg'' = Some acc"
    "pearson_r_early (aggregate ?cfg s) ''dg'' = Some (torch_mean0 (characters ?cfg) (early_slice acc))"
    "pearson_r_late (aggregate ?cfg s) ''dg'' = Some (torch_mean0 (characters ?cfg) (late_slice acc))"
    "length acc = Suc (length (entry_steps ''dg'' (trace s)))"
    "early_slice (None # map Some (entry_steps ''dg'' (trace s)))
       = replicate (trials_run (trace s)) (Some (nat (early_response_step ?cfg - 1)))"
    "late_slice (None # map Some (entry_steps ''dg'' (trace s)))
       = replicate (trials_run (trace s)) (Some (nat (late_response_steps ?cfg - 1)))"
    "\<forall>i < characters ?cfg. \<forall>j < characters ?cfg.
               torch_mean0 (characters ?cfg) (early_slice acc) ! i ! j
                 = cell_mean (map (\<lambda>m. m ! i ! j) (early_slice acc))
             \<and> torch_mean0 (characters ?cfg) (late_slice acc) ! i ! j
                 = cell_mean (map (\<lambda>m. m ! i ! j) (late_slice acc))"
    "(\<forall>m \<in> set acc. \<forall>i < characters ?cfg. \<forall>j < characters ?cfg. m ! i ! j = m ! j ! i)
              \<longrightarrow> (\<forall>i < characters ?cfg. \<forall>j < characters ?cfg.
                     torch_mean0 (characters ?cfg) (early_slice acc) ! i ! j
                       = torch_mean0 (characters ?cfg) (early_slice acc) ! j ! i
                   \<and> torch_mean0 (characters ?cfg) (late_slice acc) ! i ! j
                       = torch_mean0 (characters ?cfg) (late_slice acc) ! j ! i)"
    by auto
  have c01: "(0 :: nat) < characters ?cfg" "(1 :: nat) < characters ?cfg" by simp_all
  from a(7) c01 have cell:
    "torch_mean0 (characters ?cfg) (early_slice acc) ! 0 ! 1
       = cell_mean (map (\<lambda>m. m ! 0 ! 1) (early_slice acc))"
    by blast
  from a(8) run_entries_symmetric[OF r a(1)] c01 have sym:
    "torch_mean0 (characters ?cfg) (early_slice acc) ! 0 ! 1
       = torch_mean0 (characters ?cfg) (early_slice acc) ! 1 ! 0"
    by blast
  from m r demo_run_trials[OF r] a(1,2,3,4) cell sym a(5,6) show ?thesis
    by (intro exI[of _ "aggregate ?cfg s"] exI[of _ s] exI[of _ acc] conjI)
qed

text \<open>
  Without the bounds on the steps the claim as written fails. With early response step 0
  and late response steps 2 the run completes, every trial probes once, at the final step
  1, and the accumulator holds the placeholder and two final-step entries. The slices
  still split it by position: the aggregated early matrix is the first trial's final-step
  matrix and the aggregated late matrix the second trial's.
\<close>

theorem early_matrix_of_final_step_counterexample:
  "\<exists>s acc.
       main (demo_config [''dg''] 1 1 0 2 None) demo_env
         = Inr (aggregate (demo_config [''dg''] 1 1 0 2 None) s)
     \<and> pearson_r_tensor s ''dg'' = Some acc
     \<and> length acc = 3
     \<and> pearson_r_early (aggregate (demo_config [''dg''] 1 1 0 2 None) s) ''dg''
         = Some (torch_mean0 2 [acc ! 1])
     \<and> pearson_r_late (aggregate (demo_config [''dg''] 1 1 0 2 None) s) ''dg''
         = Some (torch_mean0 2 [acc ! 2])
     \<and> trials_run (trace s) = 2
     \<and> probe_calls (trace s) = [(1, True), (1, True)]
     \<and> entry_steps ''dg'' (trace s) = [1, 1]
     \<and> nat (late_response_steps (demo_config [''dg''] 1 1 0 2 None) - 1) = 1"
proof -
  let ?cfg = "demo_config [''dg''] 1 1 0 2 None"
  obtain s where r: "run ?cfg demo_env = Inr s"
    using demo_run_ok[of "[''dg'']" 1 1 0 2] by auto
  then have m: "main ?cfg demo_env = Inr (aggregate ?cfg s)" by (simp add: main_def)
  have one: "entry_steps ''dg'' (trial_events ?cfg) = [1]"
    using trial_events_entry_steps_one[of ?cfg "''dg''"] by simp
  have steps: "entry_steps ''dg'' (trace s) = [1, 1]"
    unfolding demo_run_trace[OF r] by (simp add: one)
  have pc: "probe_calls (trial_events ?cfg) = [(1, True)]"
    using probe_calls_study_events_one[of ?cfg]
    by (simp add: trial_events_def metrics_events_def)
  have probes: "probe_calls (trace s) = [(1, True), (1, True)]"
    unfolding demo_run_trace[OF r] by (simp add: pc)
  from counted_run[OF r] obtain acc where acc: "pearson_r_tensor s ''dg'' = Some acc"
    and len: "length acc = Suc (length (entry_steps ''dg'' (trace s)))"
    unfolding counted_def by fastforce
  from len steps have l3: "length acc = 3" by simp
  have d: "(3 :: nat) div 2 = 1" "((3 :: nat) - 1) div 2 = 1" "[0 ..< (1 :: nat)] = [0]"
    by simp_all
  have e: "early_slice acc = [acc ! 1]" and l: "late_slice acc = [acc ! 2]"
    unfolding early_slice_nth late_slice_nth l3 d by (simp_all add: numeral_2_eq_2)
  have agg: "pearson_r_early (aggregate ?cfg s) ''dg'' = Some (torch_mean0 2 [acc ! 1])"
    "pearson_r_late (aggregate ?cfg s) ''dg'' = Some (torch_mean0 2 [acc ! 2])"
    using acc e l by (simp_all add: aggregate_def)
  from m acc l3 agg demo_run_trials[OF r] probes steps show ?thesis
    by (intro exI[of _ s] exI[of _ acc] conjI) simp_all
qed

section \<open>C6: what is checked, and when\<close>




section \<open>C7: a component name without a branch\<close>

text \<open>
  Claim C7 says that a requested component whose name is none of the recognised keys
  makes the accumulation fail, never records data of another component and is never
  skipped. The chain of tests at lines 327-347 has no final \<^verbatim>\<open>else\<close>: for such a
  name \<^verbatim>\<open>recall_outputs_flat\<close> keeps the value left by the component processed
  before. In the small experiment the model's output has no entry for \<^verbatim>\<open>ltm\<close>.
  With the components \<^verbatim>\<open>dg, ltm\<close> the probe completes and the accumulator of
  \<^verbatim>\<open>ltm\<close> receives the correlation matrix of the features of \<^verbatim>\<open>dg\<close>. With
  \<^verbatim>\<open>ltm\<close> alone the first probe stops with \<^verbatim>\<open>UnboundLocalError\<close>.
\<close>

theorem unknown_component_records_other_features:
  "dom demo_outputs = {[''stm'', ''memory'', ''dg''], [''stm'', ''memory'', ''decoding'']}
   \<and> (\<exists>s'. probe (demo_config [''dg'', ''ltm''] 1 1 1 2 None) demo_env demo_generator
               [[0, 1], [1, 0]] 0 0 0 0 (init (demo_config [''dg'', ''ltm''] 1 1 1 2 None)) = Inr s'
         \<and> pearson_r_tensor s' ''ltm'' = pearson_r_tensor s' ''dg''
         \<and> pearson_r_tensor s' ''ltm''
             = Some [[[Some 0, Some 0], [Some 0, Some 0]],
                     [[Some 1, Some (- 1)], [Some (- 1), Some 1]]]
         \<and> entry_steps ''ltm'' (trace s') = [0])
   \<and> (\<exists>s'. probe (demo_config [''ltm''] 1 1 1 2 None) demo_env demo_generator
               [[0, 1], [1, 0]] 0 0 0 0 (init (demo_config [''ltm''] 1 1 1 2 None))
             = Inl (UnboundLocalError, s')
         \<and> entry_steps ''ltm'' (trace s') = [])"
proof (intro conjI)
  show "dom demo_outputs = {[''stm'', ''memory'', ''dg''], [''stm'', ''memory'', ''decoding'']}"
    by (auto simp: demo_outputs_def split: if_splits)
next
  show "\<exists>s'. probe (demo_config [''dg'', ''ltm''] 1 1 1 2 None) demo_env demo_generator
               [[0, 1], [1, 0]] 0 0 0 0 (init (demo_config [''dg'', ''ltm''] 1 1 1 2 None)) = Inr s'
         \<and> pearson_r_tensor s' ''ltm'' = pearson_r_tensor s' ''dg''
         \<and> pearson_r_tensor s' ''ltm''
             = Some [[[Some 0, Some 0], [Some 0, Some 0]],
                     [[Some 1, Some (- 1)], [Some (- 1), Some 1]]]
         \<and> entry_steps ''ltm'' (trace s') = [0]"
    by (simp add: probe_def demo_env_def demo_process_dg demo_process_ltm init_def log_event_def
        entry_steps_def numeral_2_eq_2)
next
  show "\<exists>s'. probe (demo_config [''ltm''] 1 1 1 2 None) demo_env demo_generator
               [[0, 1], [1, 0]] 0 0 0 0 (init (demo_config [''ltm''] 1 1 1 2 None))
             = Inl (UnboundLocalError, s')
         \<and> entry_steps ''ltm'' (trace s') = []"
    by (simp add: probe_def demo_env_def process_component_def select_features_def
        record_predictions_def accumulate_def init_def log_event_def entry_steps_def)
qed

section \<open>C8: classification of the reconstruction component\<close>

text \<open>
  Claim C8. At every probe of the component \<^verbatim>\<open>recon_pair\<close> that completes, the
  recalled patterns are the rows of the model's \<^verbatim>\<open>decoding\<close> output, and one list
  of predictions is recorded, with one label per recalled pattern. For each pattern the
  cosine similarities to all the reference patterns (one per core label) are computed,
  each the dot product divided by the product of the two norms, either norm raised to
  \<open>eps\<close> when below it;
  the index chosen holds a maximal similarity, every earlier index holds a strictly
  smaller one (the first maximum wins a tie), and the recorded label is the entry of the
  core label sequence at that index.
\<close>

theorem recon_pair_prediction_is_first_maximal_cosine:
  assumes "process_component cfg g ro main_pairs_flat step ''recon_pair'' s = Inr s'"
  shows "\<exists>flat labels.
           ro [''stm'', ''memory'', ''decoding''] = Some flat
         \<and> predictions s' = predictions s @ [labels]
         \<and> length labels = length flat
         \<and> (\<forall>k < length flat.
              \<exists>sims i. list_comp (cos_sim (flat ! k)) main_pairs_flat = Inr sims
                \<and> length sims = length main_pairs_flat \<and> i < length sims
                \<and> (\<forall>j < length sims. sims ! j \<le> sims ! i)
                \<and> (\<forall>j < i. sims ! j < sims ! i)
                \<and> i < length (core_label_sequence g)
                \<and> labels ! k = core_label_sequence g ! i)"
proof -
  from assms obtain bound s1 where
    sel: "select_features ro ''recon_pair'' (recall_outputs_flat s) = Inr bound"
    and rp: "record_predictions g main_pairs_flat ''recon_pair''
               (s\<lparr>recall_outputs_flat := bound\<rparr>) = Inr s1"
    and acc: "accumulate cfg g step ''recon_pair'' s1 = Inr s'"
    by (auto simp: process_component_def split: sum.splits)
  from sel obtain flat where flat: "ro [''stm'', ''memory'', ''decoding''] = Some flat"
    "bound = Some flat"
    by (auto simp: select_features_def fetch_def split: option.splits)
  from record_predictions_Inr[OF rp] flat obtain labels where
    c: "classify main_pairs_flat (core_label_sequence g) flat = Inr labels"
    and p: "predictions s1 = predictions s @ [labels]"
    by auto
  from accumulate_Inr[OF acc] have "predictions s' = predictions s1" by auto
  with p flat classify_Inr[OF c] show ?thesis
    by (intro exI[of _ flat] exI[of _ labels]) simp
qed

text \<open>The theorem at the first probe of the small experiment.\<close>

theorem recon_pair_prediction_witness:
  "\<exists>s'. process_component (demo_config [''recon_pair''] 1 1 1 2 None) demo_generator
            demo_outputs [[0, 1], [1, 0]] 0 ''recon_pair''
            (init (demo_config [''recon_pair''] 1 1 1 2 None)) = Inr s'
      \<and> (\<exists>flat labels.
           demo_outputs [''stm'', ''memory'', ''decoding''] = Some flat
         \<and> predictions s'
             = predictions (init (demo_config [''recon_pair''] 1 1 1 2 None)) @ [labels]
         \<and> length labels = length flat
         \<and> (\<forall>k < length flat.
              \<exists>sims i. list_comp (cos_sim (flat ! k)) [[0, 1], [1, 0]] = Inr sims
                \<and> length sims = length [[0, 1], [1, 0 :: real]] \<and> i < length sims
                \<and> (\<forall>j < length sims. sims ! j \<le> sims ! i)
                \<and> (\<forall>j < i. sims ! j < sims ! i)
                \<and> i < length (core_label_sequence demo_generator)
                \<and> labels ! k = core_label_sequence demo_generator ! i))"
proof -
  obtain s' where r:
    "process_component (demo_config [''recon_pair''] 1 1 1 2 None) demo_generator
       demo_outputs [[0, 1], [1, 0]] 0 ''recon_pair''
       (init (demo_config [''recon_pair''] 1 1 1 2 None)) = Inr s'"
    by (simp add: demo_process_recon_pair init_def)
  from r recon_pair_prediction_is_first_maximal_cosine[OF r] show ?thesis
    by (intro exI[of _ s'] conjI)
qed

section \<open>C9: construction of the sequence generators\<close>

text \<open>
  Claim C9, as the program has it. In every run that completes, the study generator and
  the recall generator are each constructed once per seed, before the epoch loop (lines
  199-207): the run constructs two instances per seed, whatever the number of epochs, and
  no instance is constructed inside an epoch. Every epoch of seed \<open>k\<close> reads the
  sequences of the same two instances, those of the \<open>2k\<close>-th and \<open>2k + 1\<close>-st
  constructor call (lines 215-216 and 234); an instance is shared by all the epochs of its
  seed and by no two seeds.
\<close>

theorem generators_constructed_once_per_seed:
  assumes "run cfg ev = Inr s"
  shows "constructions (trace s) = [0 ..< 2 * nat (seeds cfg)]
       \<and> generator_reads (trace s)
           = concat (map (\<lambda>k. concat (map (\<lambda>ep. [(k, ep, 2 * k), (k, ep, 2 * k + 1)])
                                    [0 ..< nat (train_epochs cfg)]))
               [0 ..< nat (seeds cfg)])"
  using run_generators[OF assms] by blast

text \<open>The theorem at the small experiment with one seed and one epoch.\<close>

theorem generators_constructed_once_per_seed_witness:
  "\<exists>s. run (demo_config [''dg''] 1 1 1 2 None) demo_env = Inr s
      \<and> constructions (trace s) = [0, 1]
      \<and> generator_reads (trace s) = [(0, 0, 0), (0, 0, 1)]"
proof -
  obtain s where r: "run (demo_config [''dg''] 1 1 1 2 None) demo_env = Inr s"
    using demo_run_ok[of "[''dg'']" 1 1 1 2] by auto
  from generators_constructed_once_per_seed[OF r]
  have "constructions (trace s) = [0, 1]"
    and "generator_reads (trace s) = [(0, 0, 0), (0, 0, 1)]"
    by (simp_all add: numeral_2_eq_2)
  with r show ?thesis by blast
qed

text \<open>
  One construction per epoch fails once a seed has more than one epoch. With one seed and
  three epochs the run completes with two constructor calls in all, neither three nor
  six, and each of the two instances is read in the epochs 0, 1 and 2.
\<close>

theorem generators_reused_across_epochs_counterexample:
  "\<exists>s. run (demo_config [''dg''] 1 3 1 2 None) demo_env = Inr s
      \<and> train_epochs (demo_config [''dg''] 1 3 1 2 None) = 3
      \<and> constructions (trace s) = [0, 1]
      \<and> generator_reads (trace s)
          = [(0, 0, 0), (0, 0, 1), (0, 1, 0), (0, 1, 1), (0, 2, 0), (0, 2, 1)]"
proof -
  obtain s where r: "run (demo_config [''dg''] 1 3 1 2 None) demo_env = Inr s"
    using demo_run_ok[of "[''dg'']" 3 1 1 2] by auto
  have u: "[0 ..< (3 :: nat)] = [0, 1, 2]" "[0 ..< (2 :: nat)] = [0, 1]" "[0 ..< (1 :: nat)] = [0]"
    by (simp_all add: upt_rec)
  from run_generators[OF r]
  have "constructions (trace s) = [0, 1]"
    and "generator_reads (trace s)
          = [(0, 0, 0), (0, 0, 1), (0, 1, 0), (0, 1, 1), (0, 2, 0), (0, 2, 1)]"
    by (simp_all add: u)
  with r show ?thesis by simp
qed

section \<open>C10: the placeholder entry\<close>

text \<open>
  Claim C10. After a run that completes, each accumulator of a tracked component still
  starts with the all-zeros placeholder put there at initialisation. Index 0 belongs to
  neither the early nor the late slice, and the four aggregated values of the component
  (the mean early and late matrices, the early and late contrast tables that are written
  out) are functions of the entries after the placeholder alone: the early ones are the
  entries at even positions among them, the late ones those at odd positions.
\<close>

theorem placeholder_never_aggregated:
  assumes "run cfg ev = Inr s" and "a \<in> set (test_components cfg)"
  shows "\<exists>ms vs.
           pearson_r_tensor s a
             = Some (replicate (characters cfg) (replicate (characters cfg) (Some 0)) # ms)
         \<and> pearson_r_test s a = Some (replicate (test_width cfg) (Some 0) # vs)
         \<and> 0 \<notin> set (slice_indices 1 (length ms + 1) 2 (length ms + 1))
         \<and> 0 \<notin> set (slice_indices 2 (length ms + 2) 2 (length ms + 1))
         \<and> pearson_r_early (aggregate cfg s) a
             = Some (torch_mean0 (characters cfg)
                      (map (\<lambda>k. ms ! (2 * k)) [0 ..< (length ms + 1) div 2]))
         \<and> pearson_r_late (aggregate cfg s) a
             = Some (torch_mean0 (characters cfg)
                      (map (\<lambda>k. ms ! (2 * k + 1)) [0 ..< length ms div 2]))
         \<and> pearson_r_early_test (aggregate cfg s) a
             = Some (map (\<lambda>k. vs ! (2 * k)) [0 ..< (length vs + 1) div 2])
         \<and> pearson_r_late_test (aggregate cfg s) a
             = Some (map (\<lambda>k. vs ! (2 * k + 1)) [0 ..< length vs div 2])"
proof -
  from counted_run[OF assms(1)] assms(2) obtain ms vs where
    o: "pearson_r_tensor s a
          = Some (replicate (characters cfg) (replicate (characters cfg) (Some 0)) # ms)"
    "pearson_r_test s a = Some (replicate (test_width cfg) (Some 0) # vs)"
    unfolding counted_def by blast
  have z: "0 \<notin> set (slice_indices 1 (length ms + 1) 2 (length ms + 1))"
    "0 \<notin> set (slice_indices 2 (length ms + 2) 2 (length ms + 1))"
    by (auto simp: slice_indices_def)
  from o z show ?thesis
    by (intro exI[of _ ms] exI[of _ vs])
       (simp add: aggregate_def early_slice_Cons late_slice_Cons)
qed

text \<open>The theorem at the run of the small experiment.\<close>

theorem placeholder_never_aggregated_witness:
  "\<exists>s. run (demo_config [''dg'', ''recon_pair''] 1 1 1 2 None) demo_env = Inr s
     \<and> (\<exists>ms vs.
           pearson_r_tensor s ''dg''
             = Some (replicate (characters (demo_config [''dg'', ''recon_pair''] 1 1 1 2 None))
                      (replicate (characters (demo_config [''dg'', ''recon_pair''] 1 1 1 2 None))
                         (Some 0)) # ms)
         \<and> pearson_r_test s ''dg''
             = Some (replicate (test_width (demo_config [''dg'', ''recon_pair''] 1 1 1 2 None))
                      (Some 0) # vs)
         \<and> 0 \<notin> set (slice_indices 1 (length ms + 1) 2 (length ms + 1))
         \<and> 0 \<notin> set (slice_indices 2 (length ms + 2) 2 (length ms + 1))
         \<and> pearson_r_early (aggregate (demo_config [''dg'', ''recon_pair''] 1 1 1 2 None) s) ''dg''
             = Some (torch_mean0 (characters (demo_config [''dg'', ''recon_pair''] 1 1 1 2 None))
                      (map (\<lambda>k. ms ! (2 * k)) [0 ..< (length ms + 1) div 2]))
         \<and> pearson_r_late (aggregate (demo_config [''dg'', ''recon_pair''] 1 1 1 2 None) s) ''dg''
             = Some (torch_mean0 (characters (demo_config [''dg'', ''recon_pair''] 1 1 1 2 None))
                      (map (\<lambda>k. ms ! (2 * k + 1)) [0 ..< length ms div 2]))
         \<and> pearson_r_early_test (aggregate (demo_config [''dg'', ''recon_pair''] 1 1 1 2 None) s) ''dg''
             = Some (map (\<lambda>k. vs ! (2 * k)) [0 ..< (length vs + 1) div 2])
         \<and> pearson_r_late_test (aggregate (demo_config [''dg'', ''recon_pair''] 1 1 1 2 None) s) ''dg''
             = Some (map (\<lambda>k. vs ! (2 * k + 1)) [0 ..< length vs div 2]))"
proof -
  let ?cfg = "demo_config [''dg'', ''recon_pair''] 1 1 1 2 None"
  obtain s where r: "run ?cfg demo_env = Inr s"
    using demo_run_ok[of "[''dg'', ''recon_pair'']" 1 1 1 2] by auto
  have h: "''dg'' \<in> set (test_components ?cfg)" by simp
  from r placeholder_never_aggregated[OF r h] show ?thesis by blast
qed

end
